theory Spec2Isabelle
  imports Main "HOL-Library.Word"
begin

section \<open>The model-class builder of the C\# generator\<close>

text \<open>
  A shallow embedding of \<^verbatim>\<open>ModelClass\<close> (model-class.ts), \<^verbatim>\<open>VirtualProperty\<close>
  (proxy-property.ts) and of the validation helpers of \<^verbatim>\<open>ModelProperty\<close> (property.ts).

  Objects of the generator are mutable and shared: a child class calls back into its
  parents (\<^verbatim>\<open>addDiscriminator\<close>). The embedding therefore keeps every \<^verbatim>\<open>ModelClass\<close> in a
  store, addressed by the identity of the schema it was built for
  (\<^verbatim>\<open>schema.details.csharp.classImplementation\<close> is that link in the source), and every
  method takes the store and returns the updated one.
\<close>

subsection \<open>Results: thrown errors and non-termination\<close>

datatype error =
    SchemaResolutionError
  | TypeError
  | UnexpectedNumberOfPrivateFields string

text \<open>
  \<open>None\<close>: the call did not return within the recursion budget;
  \<open>Some (Inl e)\<close>: it threw \<open>e\<close>; \<open>Some (Inr x)\<close>: it returned \<open>x\<close>.
\<close>

type_synonym 'a result = "(error + 'a) option"

definition bind_result :: "'a result \<Rightarrow> ('a \<Rightarrow> 'b result) \<Rightarrow> 'b result" where
  "bind_result r f =
     (case r of None \<Rightarrow> None | Some (Inl e) \<Rightarrow> Some (Inl e) | Some (Inr x) \<Rightarrow> f x)"

text \<open>A \<^verbatim>\<open>for (const x of xs) { f(x) }\<close> loop over a state; a throw ends it.\<close>

fun forEach :: "('a \<Rightarrow> 's \<Rightarrow> 's result) \<Rightarrow> 'a list \<Rightarrow> 's \<Rightarrow> 's result" where
  "forEach f [] s = Some (Inr s)"
| "forEach f (x # xs) s = bind_result (f x s) (forEach f xs)"

subsection \<open>JavaScript primitives the class relies on\<close>

text \<open>\<^verbatim>\<open>Array.prototype.indexOf\<close>: the first index of the element, or -1.\<close>

fun indexOfFrom :: "'a list \<Rightarrow> 'a \<Rightarrow> int \<Rightarrow> int" where
  "indexOfFrom [] x i = - 1"
| "indexOfFrom (y # ys) x i = (if y = x then i else indexOfFrom ys x (i + 1))"

definition indexOf :: "'a list \<Rightarrow> 'a \<Rightarrow> int" where
  "indexOf xs x = indexOfFrom xs x 0"

text \<open>A number used as a condition is true unless it is 0; a string unless it is empty.\<close>

definition truthyNumber :: "int \<Rightarrow> bool" where
  "truthyNumber i = (i \<noteq> 0)"

definition truthyString :: "string option \<Rightarrow> bool" where
  "truthyString s = (case s of None \<Rightarrow> False | Some v \<Rightarrow> v \<noteq> [])"

text \<open>The decimal rendering of a number inside a template literal.\<close>

fun decimal :: "nat \<Rightarrow> string" where
  "decimal n =
     (if n < 10 then [''0123456789'' ! n]
      else decimal (n div 10) @ [''0123456789'' ! (n mod 10)])"

declare decimal.simps [simp del]

text \<open>
  A text the class inspects is a list of UTF-16 code units, as a JavaScript string is.
  Names, which the class only compares and concatenates, stay byte strings;
  \<open>codeUnits\<close> reads an ASCII string as a text.
\<close>

type_synonym codeUnit = "16 word"

type_synonym statement = "codeUnit list"

definition codeUnits :: "string \<Rightarrow> statement" where
  "codeUnits s = map of_char s"

text \<open>
  \<^verbatim>\<open>String.prototype.trim\<close> removes white space and line terminators from both ends:
  TAB, VT, FF, SP, NBSP (U+00A0), U+FEFF and the space separators U+1680, U+2000 to
  U+200A, U+202F, U+205F, U+3000; and LF, CR, U+2028, U+2029.
\<close>

definition isWhiteSpace :: "codeUnit \<Rightarrow> bool" where
  "isWhiteSpace c =
     (c \<in> set [0x0009, 0x000B, 0x000C, 0x0020, 0x00A0, 0xFEFF,
                0x1680, 0x2000, 0x2001, 0x2002, 0x2003, 0x2004, 0x2005, 0x2006, 0x2007,
                0x2008, 0x2009, 0x200A, 0x202F, 0x205F, 0x3000,
                0x000A, 0x000D, 0x2028, 0x2029])"

definition trim :: "statement \<Rightarrow> statement" where
  "trim s = rev (dropWhile isWhiteSpace (rev (dropWhile isWhiteSpace s)))"

subsection \<open>Fields and the private-name scan\<close>

record Field =
  field_name :: string
  field_initializer :: "string option"

text \<open>
  \<^verbatim>\<open>getPrivateNameForField\<close> (model-class.ts, lines 252 to 263). The loop state is the
  counter \<open>n\<close> and the candidate \<open>name\<close>; the \<^verbatim>\<open>do ... while (n < 100)\<close> body tests the
  candidate first, then builds the next one and increments.
\<close>

function getPrivateNameLoop :: "Field list \<Rightarrow> string \<Rightarrow> nat \<Rightarrow> string \<Rightarrow> error + string" where
  "getPrivateNameLoop fs baseName n name =
     (if find (\<lambda>v. field_name v = name) fs = None then Inr name
      else if Suc n < 100 then getPrivateNameLoop fs baseName (Suc n) (baseName @ decimal n)
      else Inl (UnexpectedNumberOfPrivateFields baseName))"
  by pat_completeness auto
termination
  by (relation "measure (\<lambda>(fs, baseName, n, name). 100 - n)") auto

declare getPrivateNameLoop.simps [simp del]

definition getPrivateNameForField :: "Field list \<Rightarrow> string \<Rightarrow> error + string" where
  "getPrivateNameForField fs baseName = getPrivateNameLoop fs baseName 0 baseName"

text \<open>
  The renaming strategy in the words of the specification: the candidates are the base
  name and the base name followed by 0, 1, ... in increasing order; the first candidate
  that no existing field carries is chosen; when all are taken the scan is fatal.
\<close>

definition candidateNames :: "string \<Rightarrow> string list" where
  "candidateNames baseName = baseName # map (\<lambda>k. baseName @ decimal k) [0..<99]"

definition isFree :: "Field list \<Rightarrow> string \<Rightarrow> bool" where
  "isFree fs name = (name \<notin> field_name ` set fs)"

definition firstFreeName :: "Field list \<Rightarrow> string \<Rightarrow> error + string" where
  "firstFreeName fs baseName =
     (case find (isFree fs) (candidateNames baseName) of
        Some name \<Rightarrow> Inr name
      | None \<Rightarrow> Inl (UnexpectedNumberOfPrivateFields baseName))"

subsection \<open>The schema graph\<close>

text \<open>
  A schema is referred to by its identity (two structurally equal schemas are different
  schemas). The code model's declarations are not part of the sources; the
  records keep the members the class reads: \<^verbatim>\<open>allOf\<close> is always an array,
  \<^verbatim>\<open>properties\<close> a dictionary in insertion order, \<^verbatim>\<open>discriminator\<close> an object or
  undefined (its property name stands for it), the discriminator value the string under
  \<^verbatim>\<open>extensions['x-ms-discriminator-value']\<close>, and \<^verbatim>\<open>additionalProperties\<close> is undefined,
  a boolean or a schema.
\<close>

type_synonym sid = nat

datatype HeaderPropertyType = Header | HeaderAndBody

datatype AdditionalProperties = Undefined | Boolean bool | OfSchema sid

record Property =
  serializedName :: string
  property_schema :: sid
  required :: bool
  headerProperty :: "HeaderPropertyType option"

record Schema =
  csharp_name :: string
  csharp_fullname :: string
  properties :: "(string \<times> Property) list"
  allOf :: "sid list"
  discriminator :: "string option"
  x_ms_discriminator_value :: "string option"
  additionalProperties :: AdditionalProperties

subsection \<open>Generated members\<close>

datatype Access = Public | Internal | Private | Protected

text \<open>A property of a model interface, as \<^verbatim>\<open>allProperties\<close> lists it.\<close>

record InterfaceProperty =
  property_name :: string
  property_value :: string
  setAccess :: Access

text \<open>
  \<^verbatim>\<open>VirtualProperty\<close> (proxy-property.ts, lines 20 to 27): the constructor sets both
  accessors; \<open>property_value\<close> is what \<^verbatim>\<open>valueOf\<close> prints for the container.
\<close>

record VirtualProperty =
  vp_name :: string
  vp_type :: InterfaceProperty
  getterStatements :: "string option"
  setterStatements :: "string option"

definition new_VirtualProperty :: "string \<Rightarrow> InterfaceProperty \<Rightarrow> InterfaceProperty \<Rightarrow> VirtualProperty" where
  "new_VirtualProperty name containerExpression type =
     \<lparr>vp_name = name, vp_type = type,
      getterStatements = Some (''return '' @ property_value containerExpression @ ''.'' @ name @ '';''),
      setterStatements = Some (property_value containerExpression @ ''.'' @ name @ '' = value;'')\<rparr>"

datatype Interface = ModelInterfaceOf sid | IValidates | OtherInterface string

datatype CsType = System_String | System_Object | SchemaType sid

record BackingField =
  backing_field :: Field
  typeDeclaration :: sid
  className :: string

record ModelClass =
  class_name :: string
  fullName :: string
  isPolymorphic :: bool
  discriminators :: "string \<rightharpoonup> sid"
  parentModelClasses :: "sid list"
  hasHeaderProperties :: bool
  interfaces :: "Interface list"
  class_fields :: "Field list"
  backingFields :: "BackingField list"
  class_properties :: "VirtualProperty list"
  methods :: "string list"
  validationStatements :: "statement list"
  validateMethod :: "statement list option"
  dictionaryOf :: "(CsType \<times> CsType) option"

subsection \<open>The project and the store\<close>

text \<open>
  What the class takes from collaborators outside the sources is a parameter:
  the schema graph, the project flag, the interfaces a fresh \<^verbatim>\<open>ModelInterface\<close> starts
  with, what \<^verbatim>\<open>allProperties\<close> of a schema's interface lists, the naming utility behind
  the backing-field name, the text the type declarations print for their presence and
  value checks, and the name \<^verbatim>\<open>ModelField\<close> gives a field.
\<close>

record Env =
  schemas :: "sid \<rightharpoonup> Schema"
  storagePipeline :: bool
  newModelInterface :: "sid \<Rightarrow> Interface list"
  allProperties :: "sid \<Rightarrow> InterfaceProperty list"
  privateFieldBaseName :: "string \<Rightarrow> string"
  validatePresence :: "sid \<Rightarrow> string \<Rightarrow> statement"
  validateValue :: "sid \<Rightarrow> string \<Rightarrow> statement"
  modelFieldName :: "string \<Rightarrow> string"

text \<open>
  The store: \<open>classImplementation\<close> holds the class of each schema, and
  \<open>interfaceImplementation\<close> the \<^verbatim>\<open>interfaces\<close> array of each schema's model interface.
\<close>

record BuildState =
  classImplementation :: "sid \<rightharpoonup> ModelClass"
  interfaceImplementation :: "sid \<rightharpoonup> Interface list"

definition updateClass :: "sid \<Rightarrow> (ModelClass \<Rightarrow> ModelClass) \<Rightarrow> BuildState \<Rightarrow> BuildState result" where
  "updateClass sid f st =
     (case classImplementation st sid of
        None \<Rightarrow> Some (Inl TypeError)
      | Some self \<Rightarrow> Some (Inr (st\<lparr>classImplementation := (classImplementation st)(sid \<mapsto> f self)\<rparr>)))"

subsection \<open>The discriminator registry\<close>

text \<open>
  \<^verbatim>\<open>addDiscriminator\<close> (model-class.ts, lines 327 to 334) on the class of \<open>self\<close>:
  \<^verbatim>\<open>Map.set\<close>, then the same call on every recorded polymorphic parent. The recursion
  follows the store, so it carries a budget.
\<close>

definition setDiscriminator :: "string \<Rightarrow> sid \<Rightarrow> ModelClass \<Rightarrow> ModelClass" where
  "setDiscriminator discriminatorValue modelClass self =
     self\<lparr>discriminators := (discriminators self)(discriminatorValue \<mapsto> modelClass)\<rparr>"

primrec addDiscriminator :: "nat \<Rightarrow> sid \<Rightarrow> string \<Rightarrow> sid \<Rightarrow> BuildState \<Rightarrow> BuildState result" where
  "addDiscriminator 0 self discriminatorValue modelClass st = None"
| "addDiscriminator (Suc n) self discriminatorValue modelClass st =
     (case classImplementation st self of
        None \<Rightarrow> Some (Inl TypeError)
      | Some c \<Rightarrow>
          forEach (\<lambda>each. addDiscriminator n each discriminatorValue modelClass)
            (parentModelClasses c)
            (st\<lparr>classImplementation :=
              (classImplementation st)(self \<mapsto> setDiscriminator discriminatorValue modelClass c)\<rparr>))"

subsection \<open>Resolving a schema\<close>

text \<open>
  Modelled from the spec: \<^verbatim>\<open>resolveTypeDeclaration\<close> of the models namespace is not part of
  the sources. With \<^verbatim>\<open>requireDeclared\<close> set, as every call here has it, it
  returns the existing descriptor when the schema was already resolved and otherwise
  builds the schema's class before returning; \<open>build\<close> is the builder it calls.
\<close>

definition resolveTypeDeclaration ::
  "(sid \<Rightarrow> BuildState \<Rightarrow> BuildState result) \<Rightarrow> sid \<Rightarrow> BuildState \<Rightarrow> BuildState result" where
  "resolveTypeDeclaration build schema st =
     (case classImplementation st schema of
        Some c \<Rightarrow> Some (Inr st)
      | None \<Rightarrow> build schema st)"

subsection \<open>Flattening a parent\<close>

text \<open>
  Lines 291 to 301: one virtual property per property of the parent's interface. The
  setter is removed after the property was added; the added object is the same object.
\<close>

definition proxyFor :: "InterfaceProperty \<Rightarrow> VirtualProperty" where
  "proxyFor each =
     (let vp = new_VirtualProperty (property_name each) each each
      in if setAccess each = Internal then vp\<lparr>setterStatements := None\<rparr> else vp)"

definition addInheritedProperty :: "InterfaceProperty \<Rightarrow> ModelClass \<Rightarrow> ModelClass" where
  "addInheritedProperty each self =
     self\<lparr>class_properties := class_properties self @ [proxyFor each]\<rparr>"

text \<open>Lines 283 to 304, once the field name is known.\<close>

definition flattenParent :: "Env \<Rightarrow> sid \<Rightarrow> string \<Rightarrow> string \<Rightarrow> ModelClass \<Rightarrow> ModelClass" where
  "flattenParent env parentSchema parentClassName fieldName self =
     (let backingField =
            \<lparr>field_name = fieldName, field_initializer = Some (''new '' @ parentClassName @ ''()'')\<rparr>;
          c1 = self\<lparr>class_fields := class_fields self @ [backingField]\<rparr>;
          c2 = c1\<lparr>backingFields := backingFields c1 @
                 [\<lparr>backing_field = backingField, typeDeclaration = parentSchema,
                   className = parentClassName\<rparr>]\<rparr>;
          c3 = fold addInheritedProperty (allProperties env parentSchema) c2
      in c3\<lparr>validationStatements := validationStatements c3 @
                [validatePresence env parentSchema fieldName,
                 validateValue env parentSchema fieldName]\<rparr>)"

text \<open>
  \<^verbatim>\<open>implementInterfaceForParentSchema\<close> (lines 266 to 311) on the class of \<open>self\<close>. The
  guard is the source's: the number \<^verbatim>\<open>indexOf\<close> returns is the condition. The final loop
  runs once per entry of the parent's \<^verbatim>\<open>allOf\<close> and passes \<open>parentSchema\<close> again, as the
  source does. The container expression is only handed down and is left out.
\<close>

primrec implementInterfaceForParentSchema ::
  "nat \<Rightarrow> (sid \<Rightarrow> BuildState \<Rightarrow> BuildState result) \<Rightarrow> Env \<Rightarrow> sid \<Rightarrow> sid \<Rightarrow> BuildState
     \<Rightarrow> BuildState result" where
  "implementInterfaceForParentSchema 0 build env self parentSchema st = None"
| "implementInterfaceForParentSchema (Suc n) build env self parentSchema st =
     bind_result (resolveTypeDeclaration build parentSchema st) (\<lambda>st1.
       case interfaceImplementation st1 self of
         None \<Rightarrow> Some (Inl TypeError)
       | Some ifaces \<Rightarrow>
           if truthyNumber (indexOf ifaces (ModelInterfaceOf parentSchema)) then Some (Inr st1)
           else
             (case (classImplementation st1 parentSchema, classImplementation st1 self,
                    schemas env parentSchema) of
                (Some parentClass, Some c, Some parent) \<Rightarrow>
                  (case getPrivateNameForField (class_fields c)
                          (privateFieldBaseName env (fullName parentClass)) of
                     Inl e \<Rightarrow> Some (Inl e)
                   | Inr fieldName \<Rightarrow>
                       forEach
                         (\<lambda>each. implementInterfaceForParentSchema n build env self parentSchema)
                         (allOf parent)
                         (st1\<lparr>classImplementation :=
                                (classImplementation st1)
                                  (self \<mapsto> flattenParent env parentSchema (fullName parentClass) fieldName c),
                              interfaceImplementation :=
                                (interfaceImplementation st1)
                                  (self \<mapsto> ifaces @ [ModelInterfaceOf parentSchema])\<rparr>))
              | _ \<Rightarrow> Some (Inl TypeError)))"

subsection \<open>The constructor\<close>

text \<open>
  Lines 86 to 113. The build pass constructs a class without an object initializer, so
  \<^verbatim>\<open>apply\<close> changes nothing. The new class is published under its schema, takes its
  model interface (the schema's, or a fresh one), and is polymorphic when the schema has
  a discriminator. \<open>hasHeaderProperties\<close> (line 102) reads the properties of the schema
  itself; both of its tests compare with \<open>Header\<close>.
\<close>

definition isHeader :: "Property \<Rightarrow> bool" where
  "isHeader property = (headerProperty property = Some Header \<or> headerProperty property = Some Header)"

definition newModelClass :: "Schema \<Rightarrow> ModelClass" where
  "newModelClass schema =
     \<lparr>class_name = csharp_name schema, fullName = csharp_fullname schema,
      isPolymorphic = False, discriminators = Map.empty, parentModelClasses = [],
      hasHeaderProperties = list_ex isHeader (map snd (properties schema)),
      interfaces = [], class_fields = [], backingFields = [], class_properties = [], methods = [],
      validationStatements = [], validateMethod = None, dictionaryOf = None\<rparr>"

definition constructorHead :: "Env \<Rightarrow> sid \<Rightarrow> Schema \<Rightarrow> BuildState \<Rightarrow> BuildState" where
  "constructorHead env sid schema st =
     (let c0 = newModelClass schema;
          modelInterface =
            (case interfaceImplementation st sid of
               Some ifaces \<Rightarrow> ifaces
             | None \<Rightarrow> newModelInterface env sid);
          c1 = c0\<lparr>interfaces := interfaces c0 @ [ModelInterfaceOf sid]\<rparr>;
          c2 = (if discriminator schema \<noteq> None then c1\<lparr>isPolymorphic := True\<rparr> else c1)
      in st\<lparr>classImplementation := (classImplementation st)(sid \<mapsto> c2),
            interfaceImplementation := (interfaceImplementation st)(sid \<mapsto> modelInterface)\<rparr>)"

text \<open>Lines 115 to 134: a class with a discriminator value tells its polymorphic parents.\<close>

definition pushParentModelClass :: "sid \<Rightarrow> ModelClass \<Rightarrow> ModelClass" where
  "pushParentModelClass parentClass self =
     self\<lparr>parentModelClasses := parentModelClasses self @ [parentClass]\<rparr>"

definition tellParent ::
  "nat \<Rightarrow> (sid \<Rightarrow> BuildState \<Rightarrow> BuildState result) \<Rightarrow> sid \<Rightarrow> string \<Rightarrow> sid \<Rightarrow> BuildState
     \<Rightarrow> BuildState result" where
  "tellParent n build self discriminatorValue parentSchema st =
     bind_result (resolveTypeDeclaration build parentSchema st) (\<lambda>st1.
       case classImplementation st1 parentSchema of
         None \<Rightarrow> Some (Inl TypeError)
       | Some parentClass \<Rightarrow>
           if isPolymorphic parentClass then
             bind_result (updateClass self (pushParentModelClass parentSchema) st1)
               (addDiscriminator n parentSchema discriminatorValue self)
           else Some (Inr st1))"

definition tellParents ::
  "nat \<Rightarrow> (sid \<Rightarrow> BuildState \<Rightarrow> BuildState result) \<Rightarrow> sid \<Rightarrow> Schema \<Rightarrow> BuildState
     \<Rightarrow> BuildState result" where
  "tellParents n build self schema st =
     (if truthyString (x_ms_discriminator_value schema) then
        forEach (tellParent n build self (the (x_ms_discriminator_value schema))) (allOf schema) st
      else Some (Inr st))"

text \<open>Line 136: the default constructor.\<close>

definition addDefaultConstructor :: "ModelClass \<Rightarrow> ModelClass" where
  "addDefaultConstructor self = self\<lparr>methods := methods self @ [''.ctor'']\<rparr>"

text \<open>
  Modelled from the spec: the class \<^verbatim>\<open>ModelField\<close> that lines 149 to 160 instantiate is
  not part of the sources. Each property of the schema gets a field, and the field's
  presence and value checks are appended to the validation statements; the checks are
  those of \<^verbatim>\<open>ModelProperty\<close> (property.ts, lines 45 to 53): the presence check only when
  the property is required.
\<close>

definition validatePresenceStatement :: "Env \<Rightarrow> Property \<Rightarrow> string \<Rightarrow> statement" where
  "validatePresenceStatement env property var =
     (if required property then validatePresence env (property_schema property) var else [])"

definition validationStatement :: "Env \<Rightarrow> Property \<Rightarrow> string \<Rightarrow> statement" where
  "validationStatement env property var = validateValue env (property_schema property) var"

definition addProperty :: "Env \<Rightarrow> string \<times> Property \<Rightarrow> ModelClass \<Rightarrow> ModelClass" where
  "addProperty env entry self =
     (let index = fst entry; property = snd entry;
          name = modelFieldName env
                   (if serializedName property \<noteq> [] then serializedName property else index);
          c1 = self\<lparr>class_fields := class_fields self @ [\<lparr>field_name = name, field_initializer = None\<rparr>]\<rparr>
      in c1\<lparr>validationStatements := validationStatements c1 @
                [validatePresenceStatement env property name,
                 validationStatement env property name]\<rparr>)"

text \<open>
  Modelled from the spec: \<^verbatim>\<open>implementIDictionary\<close> is not part of the sources; it
  attaches the key/value collection capability for the two types.
\<close>

definition implementIDictionary :: "CsType \<Rightarrow> CsType \<Rightarrow> ModelClass \<Rightarrow> ModelClass" where
  "implementIDictionary keyType valueType self = self\<lparr>dictionaryOf := Some (keyType, valueType)\<rparr>"

text \<open>
  Lines 183 to 193: the rule is tested for truth, then compared with \<^verbatim>\<open>true\<close>; the other
  branch is empty in the source.
\<close>

definition truthyAdditionalProperties :: "AdditionalProperties \<Rightarrow> bool" where
  "truthyAdditionalProperties a =
     (case a of Undefined \<Rightarrow> False | Boolean b \<Rightarrow> b | OfSchema s \<Rightarrow> True)"

definition handleAdditionalProperties :: "Schema \<Rightarrow> ModelClass \<Rightarrow> ModelClass" where
  "handleAdditionalProperties schema self =
     (if truthyAdditionalProperties (additionalProperties schema) then
        if additionalProperties schema = Boolean True then
          implementIDictionary System_String System_Object self
        else self
      else self)"

text \<open>
  Lines 194 to 208. \<^verbatim>\<open>Statements\<close> is the code generator's; it is a list of statement
  texts and \<open>implementation\<close> prints them one per line.
\<close>

fun implementation :: "statement list \<Rightarrow> statement" where
  "implementation [] = []"
| "implementation [s] = s"
| "implementation (s # ss) = s @ [0x000A] @ implementation ss"

definition attachValidation :: "Env \<Rightarrow> ModelClass \<Rightarrow> ModelClass" where
  "attachValidation env self =
     (if \<not> storagePipeline env then
        if trim (implementation (validationStatements self)) \<noteq> [] then
          self\<lparr>interfaces := interfaces self @ [IValidates],
               methods := methods self @ [''Validate''],
               validateMethod := Some (validationStatements self)\<rparr>
        else self
      else self)"

text \<open>Lines 213 to 235: the header reader.\<close>

definition attachReadHeaders :: "ModelClass \<Rightarrow> ModelClass" where
  "attachReadHeaders self =
     (if hasHeaderProperties self then self\<lparr>methods := methods self @ [''ReadHeaders'']\<rparr>
      else self)"

text \<open>
  Lines 149 to 235 in order. The loop over the schema's virtual properties (lines 167 to
  181) has three empty cases and changes nothing; the JSON and XML serializers (lines 236
  to 249) are attached after everything modelled here and do not touch it.
\<close>

definition constructorTail :: "Env \<Rightarrow> Schema \<Rightarrow> ModelClass \<Rightarrow> ModelClass" where
  "constructorTail env schema self =
     attachReadHeaders
       (attachValidation env
         (handleAdditionalProperties schema
           (fold (addProperty env) (properties schema) self)))"

text \<open>
  The constructor (lines 84 to 250) for the schema \<open>sid\<close>. Parents are resolved, and
  built when they are not yet, by the constructor itself; the budget bounds the depth of
  that recursion.
\<close>

primrec ModelClass_constructor :: "nat \<Rightarrow> Env \<Rightarrow> sid \<Rightarrow> BuildState \<Rightarrow> BuildState result" where
  "ModelClass_constructor 0 env sid st = None"
| "ModelClass_constructor (Suc n) env sid st =
     (case schemas env sid of
        None \<Rightarrow> Some (Inl SchemaResolutionError)
      | Some schema \<Rightarrow>
          bind_result
            (tellParents n (ModelClass_constructor n env) sid schema
               (constructorHead env sid schema st)) (\<lambda>st1.
          bind_result (updateClass sid addDefaultConstructor st1) (\<lambda>st2.
          bind_result
            (forEach (implementInterfaceForParentSchema n (ModelClass_constructor n env) env sid)
               (allOf schema) st2) (\<lambda>st3.
          updateClass sid (constructorTail env schema) st3))))"

definition emptyState :: BuildState where
  "emptyState = \<lparr>classImplementation = Map.empty, interfaceImplementation = Map.empty\<rparr>"

subsection \<open>Reading a result\<close>

definition returned :: "'a result \<Rightarrow> bool" where
  "returned r = (case r of Some (Inr x) \<Rightarrow> True | _ \<Rightarrow> False)"

definition builtState :: "BuildState result \<Rightarrow> BuildState" where
  "builtState r = (case r of Some (Inr st) \<Rightarrow> st | _ \<Rightarrow> emptyState)"

definition builtClass :: "BuildState result \<Rightarrow> sid \<Rightarrow> ModelClass option" where
  "builtClass r sid = (case r of Some (Inr st) \<Rightarrow> classImplementation st sid | _ \<Rightarrow> None)"

subsection \<open>Notions the properties are stated with\<close>

text \<open>
  The polymorphic ancestors of a class: the class itself and everything reached through
  the recorded \<open>parentModelClasses\<close>.
\<close>

inductive polymorphicAncestor :: "BuildState \<Rightarrow> sid \<Rightarrow> sid \<Rightarrow> bool" for st where
  itself: "polymorphicAncestor st a a"
| parent: "classImplementation st a = Some c \<Longrightarrow> p \<in> set (parentModelClasses c) \<Longrightarrow>
     polymorphicAncestor st p q \<Longrightarrow> polymorphicAncestor st a q"

text \<open>
  The recorded parents form no cycle: every recorded parent is in the store and stands
  strictly lower in some ranking.
\<close>

definition ranked :: "(sid \<Rightarrow> nat) \<Rightarrow> BuildState \<Rightarrow> bool" where
  "ranked rank st =
     (\<forall>a c. classImplementation st a = Some c \<longrightarrow>
        (\<forall>p \<in> set (parentModelClasses c). classImplementation st p \<noteq> None \<and> rank p < rank a))"

text \<open>The store after \<open>modelClass\<close> was set under \<open>v\<close> in every class of \<open>A\<close>.\<close>

definition registered :: "sid set \<Rightarrow> string \<Rightarrow> sid \<Rightarrow> BuildState \<Rightarrow> BuildState" where
  "registered A v mc st =
     st\<lparr>classImplementation :=
          (\<lambda>a. if a \<in> A then map_option (setDiscriminator v mc) (classImplementation st a)
               else classImplementation st a)\<rparr>"

text \<open>
  The schema graph has no cycle along \<^verbatim>\<open>allOf\<close>: every parent stands strictly lower in
  some ranking. A builder keeps stores ranked when it returns a ranked store for every
  ranked store.
\<close>

definition acyclicSchemas :: "(sid \<Rightarrow> nat) \<Rightarrow> Env \<Rightarrow> bool" where
  "acyclicSchemas rank env =
     (\<forall>s schema. schemas env s = Some schema \<longrightarrow> (\<forall>p \<in> set (allOf schema). rank p < rank s))"

definition keepsRanked :: "(sid \<Rightarrow> nat) \<Rightarrow> (sid \<Rightarrow> BuildState \<Rightarrow> BuildState result) \<Rightarrow> bool" where
  "keepsRanked rank build =
     (\<forall>s t t'. ranked rank t \<longrightarrow> build s t = Some (Inr t') \<longrightarrow> ranked rank t')"

text \<open>
  A relation between a class before and after a step is stable when the updates the
  constructor makes ahead of its last part respect it; \<open>pres\<close> lifts it to stores.
\<close>

definition stable :: "Env \<Rightarrow> (ModelClass \<Rightarrow> ModelClass \<Rightarrow> bool) \<Rightarrow> bool" where
  "stable env R =
     ((\<forall>c. R c c) \<and> (\<forall>a b c. R a b \<longrightarrow> R b c \<longrightarrow> R a c)
      \<and> (\<forall>v m c. R c (setDiscriminator v m c))
      \<and> (\<forall>p c. R c (pushParentModelClass p c))
      \<and> (\<forall>c. R c (addDefaultConstructor c))
      \<and> (\<forall>p cn fn c. R c (flattenParent env p cn fn c)))"

definition pres :: "(ModelClass \<Rightarrow> ModelClass \<Rightarrow> bool) \<Rightarrow> BuildState \<Rightarrow> BuildState \<Rightarrow> bool" where
  "pres R st st' =
     (\<forall>s c. classImplementation st s = Some c \<longrightarrow>
        (\<exists>c'. classImplementation st' s = Some c' \<and> R c c'))"

definition framed :: "(ModelClass \<Rightarrow> ModelClass \<Rightarrow> bool) \<Rightarrow> (sid \<Rightarrow> BuildState \<Rightarrow> BuildState result) \<Rightarrow> bool" where
  "framed R build =
     (\<forall>s t t'. classImplementation t s = None \<longrightarrow> build s t = Some (Inr t') \<longrightarrow> pres R t t')"

text \<open>
  A schema declares a discriminator value; a value declared by one schema only. A class
  holds the entry \<open>v\<close> to \<open>D\<close> in its discriminator map.
\<close>

definition declares :: "Env \<Rightarrow> sid \<Rightarrow> string \<Rightarrow> bool" where
  "declares env m v =
     (case schemas env m of None \<Rightarrow> False | Some schema \<Rightarrow> x_ms_discriminator_value schema = Some v)"

definition onlyDeclaredBy :: "Env \<Rightarrow> string \<Rightarrow> sid \<Rightarrow> bool" where
  "onlyDeclaredBy env v D = (\<forall>m. declares env m v \<longrightarrow> m = D)"

definition hasEntry :: "BuildState \<Rightarrow> sid \<Rightarrow> string \<Rightarrow> sid \<Rightarrow> bool" where
  "hasEntry st A v D =
     (case classImplementation st A of None \<Rightarrow> False | Some c \<Rightarrow> discriminators c v = Some D)"


text \<open>
  A class keeps its recorded parents and, if it has it, the entry \<open>v\<close> to \<open>D\<close>. A relation
  is stable but for the push when every update of the constructor other than recording a
  parent respects it, registrations taken for the values the schemas declare; \<open>othersKept\<close>
  lifts a relation to the classes of a store other than \<open>self\<close>.
\<close>

definition keeps :: "string \<Rightarrow> sid \<Rightarrow> ModelClass \<Rightarrow> ModelClass \<Rightarrow> bool" where
  "keeps v D c c' =
     (parentModelClasses c' = parentModelClasses c
      \<and> (discriminators c v = Some D \<longrightarrow> discriminators c' v = Some D))"

definition stableButPush :: "Env \<Rightarrow> (ModelClass \<Rightarrow> ModelClass \<Rightarrow> bool) \<Rightarrow> bool" where
  "stableButPush env R =
     ((\<forall>c. R c c) \<and> (\<forall>a b c. R a b \<longrightarrow> R b c \<longrightarrow> R a c)
      \<and> (\<forall>v m c. declares env m v \<longrightarrow> R c (setDiscriminator v m c))
      \<and> (\<forall>c. R c (addDefaultConstructor c))
      \<and> (\<forall>p cn fn c. R c (flattenParent env p cn fn c))
      \<and> (\<forall>schema c. R c (constructorTail env schema c)))"

definition othersKept :: "sid \<Rightarrow> (ModelClass \<Rightarrow> ModelClass \<Rightarrow> bool) \<Rightarrow> BuildState \<Rightarrow> BuildState \<Rightarrow> bool" where
  "othersKept self R st st' =
     (\<forall>s c. s \<noteq> self \<longrightarrow> classImplementation st s = Some c \<longrightarrow>
        (\<exists>c'. classImplementation st' s = Some c' \<and> R c c'))"

text \<open>
  A step adds classes of rank at most \<open>r\<close> only; a builder adds classes ranked at most as
  the schema it is called for. A builder is informing for \<open>D\<close> and \<open>v\<close> when, called for
  a schema that is not in a ranked store, it returns a store in which the ancestors of \<open>D\<close>
  hold the entry if they did before or \<open>D\<close> was not built before. While \<open>self\<close> is under
  construction the store is guarded: ranked, the ancestors of \<open>D\<close> hold the entry, and
  \<open>self\<close> is none of them.
\<close>

definition addsBelow :: "(sid \<Rightarrow> nat) \<Rightarrow> nat \<Rightarrow> BuildState \<Rightarrow> BuildState \<Rightarrow> bool" where
  "addsBelow rank r st st' =
     (\<forall>a. classImplementation st' a \<noteq> None \<longrightarrow> classImplementation st a \<noteq> None \<or> rank a \<le> r)"





text \<open>The class as the head of the constructor publishes it.\<close>

definition headClass :: "sid \<Rightarrow> Schema \<Rightarrow> ModelClass" where
  "headClass sid schema =
     (let c1 = (newModelClass schema)\<lparr>interfaces := [ModelInterfaceOf sid]\<rparr>
      in if discriminator schema \<noteq> None then c1\<lparr>isPolymorphic := True\<rparr> else c1)"

definition untouched :: "ModelClass \<Rightarrow> ModelClass \<Rightarrow> bool" where
  "untouched c c' =
     (isPolymorphic c' = isPolymorphic c \<and> validateMethod c' = validateMethod c
      \<and> interfaces c' = interfaces c \<and> dictionaryOf c' = dictionaryOf c
      \<and> hasHeaderProperties c' = hasHeaderProperties c
      \<and> set (methods c') \<subseteq> insert ''.ctor'' (set (methods c)))"

text \<open>
  The validation sequence holds a check: some statement has a character that is not white
  space (a property that is not required contributes an empty presence statement).
\<close>

definition hasCheck :: "statement list \<Rightarrow> bool" where
  "hasCheck ss = list_ex (list_ex (\<lambda>c. \<not> isWhiteSpace c)) ss"

text \<open>
  A proxy has a getter, and lacks the setter exactly when the property it stands for has
  an internal setter.
\<close>

definition proxyOk :: "VirtualProperty \<Rightarrow> bool" where
  "proxyOk vp = (getterStatements vp \<noteq> None
      \<and> (setterStatements vp = None) = (setAccess (vp_type vp) = Internal))"

definition proxiesKept :: "ModelClass \<Rightarrow> ModelClass \<Rightarrow> bool" where
  "proxiesKept c c' = (list_all proxyOk (class_properties c) \<longrightarrow> list_all proxyOk (class_properties c'))"

text \<open>
  The guard of \<^verbatim>\<open>implementInterfaceForParentSchema\<close> lets the parent through: the parent
  is built and \<^verbatim>\<open>indexOf\<close> is 0.
\<close>

definition flatteningOpen :: "sid \<Rightarrow> sid \<Rightarrow> BuildState \<Rightarrow> bool" where
  "flatteningOpen self parentSchema st =
     (case (classImplementation st parentSchema, interfaceImplementation st self) of
        (Some parentClass, Some ifaces) \<Rightarrow> \<not> truthyNumber (indexOf ifaces (ModelInterfaceOf parentSchema))
      | _ \<Rightarrow> False)"

subsection \<open>Example projects\<close>

definition exampleSchema :: "string \<Rightarrow> sid list \<Rightarrow> Schema" where
  "exampleSchema n ps =
     \<lparr>csharp_name = n, csharp_fullname = n, properties = [], allOf = ps,
      discriminator = None, x_ms_discriminator_value = None, additionalProperties = Undefined\<rparr>"

definition exampleEnv ::
  "(sid \<rightharpoonup> Schema) \<Rightarrow> (sid \<Rightarrow> Interface list) \<Rightarrow> (sid \<Rightarrow> InterfaceProperty list) \<Rightarrow> Env" where
  "exampleEnv ss ifaces props =
     \<lparr>schemas = ss, storagePipeline = False, newModelInterface = ifaces,
      allProperties = props, privateFieldBaseName = (\<lambda>s. CHR ''_'' # s),
      validatePresence = (\<lambda>t v. codeUnits (''AssertNotNull('' @ v @ '');'')),
      validateValue = (\<lambda>t v. codeUnits (''AssertValid('' @ v @ '');'')),
      modelFieldName = (\<lambda>s. CHR ''_'' # s)\<rparr>"

text \<open>A model interface that already lists the parent's interface first.\<close>

definition parentFirst :: "sid \<Rightarrow> sid \<Rightarrow> sid \<Rightarrow> Interface list" where
  "parentFirst child parent s = (if s = child then [ModelInterfaceOf parent] else [])"

text \<open>A model interface that lists another interface first and the parent's second.\<close>

definition parentSecond :: "sid \<Rightarrow> sid \<Rightarrow> sid \<Rightarrow> Interface list" where
  "parentSecond child parent s =
     (if s = child then [OtherInterface ''IJsonSerializable'', ModelInterfaceOf parent] else [])"

text \<open>Animal (0) owns the discriminator; Dog (1) and Cat (2) are its variants.\<close>

definition zoo :: "sid \<rightharpoonup> Schema" where
  "zoo = [0 \<mapsto> (exampleSchema ''Animal'' [])\<lparr>discriminator := Some ''kind''\<rparr>,
          1 \<mapsto> (exampleSchema ''Dog'' [0])\<lparr>x_ms_discriminator_value := Some ''dog''\<rparr>,
          2 \<mapsto> (exampleSchema ''Cat'' [0])\<lparr>x_ms_discriminator_value := Some ''cat''\<rparr>]"

definition zooEnv :: Env where
  "zooEnv = exampleEnv zoo (\<lambda>s. []) (\<lambda>s. [])"

definition zooBuilt :: "BuildState result" where
  "zooBuilt =
     bind_result (ModelClass_constructor 3 zooEnv 1 emptyState) (ModelClass_constructor 3 zooEnv 2)"







text \<open>
  Root (0) is polymorphic; Child (1) has the value c and is polymorphic too; Grandchild (2)
  has the value g and the parent Child.
\<close>

definition lineage :: "sid \<rightharpoonup> Schema" where
  "lineage =
     [0 \<mapsto> (exampleSchema ''Root'' [])\<lparr>discriminator := Some ''kind''\<rparr>,
      1 \<mapsto> (exampleSchema ''Child'' [0])
             \<lparr>discriminator := Some ''kind'', x_ms_discriminator_value := Some ''c''\<rparr>,
      2 \<mapsto> (exampleSchema ''Grandchild'' [1])\<lparr>x_ms_discriminator_value := Some ''g''\<rparr>]"

definition lineageEnv :: Env where
  "lineageEnv = exampleEnv lineage (\<lambda>s. []) (\<lambda>s. [])"

text \<open>The store after the constructor has built Child (and Root on the way).\<close>

definition lineageBuilt :: BuildState where
  "lineageBuilt = builtState (ModelClass_constructor 3 lineageEnv 1 emptyState)"

text \<open>Derived (1) lists Base (0) twice.\<close>

definition duplicateParent :: "sid \<rightharpoonup> Schema" where
  "duplicateParent = [0 \<mapsto> exampleSchema ''Base'' [], 1 \<mapsto> exampleSchema ''Derived'' [0, 0]]"

text \<open>Grand (0), Parent (1) of Grand, Child (2) of Parent; each interface lists its own property.\<close>

definition threeLevels :: "sid \<rightharpoonup> Schema" where
  "threeLevels =
     [0 \<mapsto> exampleSchema ''Grand'' [], 1 \<mapsto> exampleSchema ''Parent'' [0],
      2 \<mapsto> exampleSchema ''Child'' [1]]"

definition ownProperties :: "sid \<Rightarrow> InterfaceProperty list" where
  "ownProperties s =
     (if s = 0 then [\<lparr>property_name = ''Id'', property_value = ''Id'', setAccess = Internal\<rparr>]
      else if s = 1 then [\<lparr>property_name = ''Name'', property_value = ''Name'', setAccess = Public\<rparr>]
      else [])"

definition threeLevelsEnv :: "(sid \<Rightarrow> Interface list) \<Rightarrow> Env" where
  "threeLevelsEnv ifaces = exampleEnv threeLevels ifaces ownProperties"

text \<open>
  The store when the constructor of Child starts on its \<^verbatim>\<open>allOf\<close>: Parent is built and
  Child is published, its model interface listing Parent's first.
\<close>

definition childStarted :: BuildState where
  "childStarted =
     constructorHead (threeLevelsEnv (parentFirst 2 1)) 2 (exampleSchema ''Child'' [1])
       (builtState (ModelClass_constructor 3 (threeLevelsEnv (parentFirst 2 1)) 1 emptyState))"

text \<open>Blob (0) has the required header property ETag; PageBlob (1) has the parent Blob.\<close>

definition etag :: Property where
  "etag = \<lparr>serializedName = ''ETag'', property_schema = 9, required = True,
           headerProperty = Some Header\<rparr>"

definition blobs :: "sid \<rightharpoonup> Schema" where
  "blobs =
     [0 \<mapsto> (exampleSchema ''Blob'' [])\<lparr>properties := [(''etag'', etag)]\<rparr>,
      1 \<mapsto> exampleSchema ''PageBlob'' [0]]"

definition blobsEnv :: Env where
  "blobsEnv =
     exampleEnv blobs (parentFirst 1 0)
       (\<lambda>s. if s = 0
            then [\<lparr>property_name = ''ETag'', property_value = ''ETag'', setAccess = Internal\<rparr>]
            else [])"

text \<open>Typed (1) allows values of Tag (0) only, Open (2) allows anything, Tag nothing.\<close>

definition dictionaries :: "sid \<rightharpoonup> Schema" where
  "dictionaries =
     [0 \<mapsto> exampleSchema ''Tag'' [],
      1 \<mapsto> (exampleSchema ''Typed'' [])\<lparr>additionalProperties := OfSchema 0\<rparr>,
      2 \<mapsto> (exampleSchema ''Open'' [])\<lparr>additionalProperties := Boolean True\<rparr>]"

definition dictionariesEnv :: Env where
  "dictionariesEnv = exampleEnv dictionaries (\<lambda>s. []) (\<lambda>s. [])"

text \<open>Note (0) has one optional property, of a type that prints no value check.\<close>

definition notesEnv :: Env where
  "notesEnv =
     (exampleEnv
        [0 \<mapsto> (exampleSchema ''Note'' [])
               \<lparr>properties :=
                  [(''text'', \<lparr>serializedName = ''text'', property_schema = 9, required = False,
                               headerProperty = None\<rparr>)]\<rparr>]
        (\<lambda>s. []) (\<lambda>s. []))
     \<lparr>validateValue := (\<lambda>t v. [])\<rparr>"

text \<open>The same project, with a value check that prints one no-break space (U+00A0).\<close>

definition nbspEnv :: Env where
  "nbspEnv = notesEnv\<lparr>validateValue := (\<lambda>t v. [0x00A0])\<rparr>"

text \<open>
  The blob project with a fresh model interface for PageBlob (no interface listed yet),
  and with one that lists another interface before Blob's.
\<close>

definition blobsFreshEnv :: Env where
  "blobsFreshEnv = blobsEnv\<lparr>newModelInterface := (\<lambda>s. [])\<rparr>"

definition blobsSecondEnv :: Env where
  "blobsSecondEnv = blobsEnv\<lparr>newModelInterface := parentSecond 1 0\<rparr>"

section \<open>Properties\<close>


subsection \<open>The private-name scan\<close>

lemma find_field_None: "(find (\<lambda>v. field_name v = name) fs = None) = isFree fs name"
  by (auto simp: find_None_iff isFree_def)

lemma getPrivateNameLoop_scan:
  "n \<le> 99 \<Longrightarrow>
   getPrivateNameLoop fs baseName n name =
     (case find (isFree fs) (name # map (\<lambda>k. baseName @ decimal k) [n..<99]) of
        Some c \<Rightarrow> Inr c
      | None \<Rightarrow> Inl (UnexpectedNumberOfPrivateFields baseName))"
proof (induction fs baseName n name rule: getPrivateNameLoop.induct)
  case (1 fs baseName n name)
  show ?case
  proof (cases "isFree fs name")
    case True
    then show ?thesis
      by (subst getPrivateNameLoop.simps) (simp add: find_field_None)
  next
    case taken: False
    show ?thesis
    proof (cases "Suc n < 100")
      case True
      then have range: "[n..<99] = n # [Suc n..<99]"
        by (simp add: upt_conv_Cons)
      from True have "Suc n \<le> 99" by simp
      with "1.IH" taken True have
        "getPrivateNameLoop fs baseName (Suc n) (baseName @ decimal n) =
           (case find (isFree fs) ((baseName @ decimal n) # map (\<lambda>k. baseName @ decimal k) [Suc n..<99]) of
              Some c \<Rightarrow> Inr c
            | None \<Rightarrow> Inl (UnexpectedNumberOfPrivateFields baseName))"
        by (simp add: find_field_None)
      with taken True range show ?thesis
        by (subst getPrivateNameLoop.simps) (simp add: find_field_None)
    next
      case False
      with "1.prems" have "n = 99" by simp
      with taken show ?thesis
        by (subst getPrivateNameLoop.simps) (simp add: find_field_None)
    qed
  qed
qed

text \<open>
  C5. The name chosen for a backing field is the first of the candidates
  \<open>base, base0, base1, ..., base98\<close> (in this order) that no existing field carries; there
  are exactly 100 candidates, so the scan makes at most 100 attempts; when every candidate
  is taken the call throws. The result is a function of the fields and the base name
  alone, so repeated runs on the same input agree.
\<close>

theorem getPrivateNameForField_first_free:
  "getPrivateNameForField fs baseName = firstFreeName fs baseName
   \<and> length (candidateNames baseName) = 100
   \<and> take 3 (candidateNames baseName) = [baseName, baseName @ ''0'', baseName @ ''1'']"
proof -
  have "getPrivateNameForField fs baseName = firstFreeName fs baseName"
    unfolding getPrivateNameForField_def firstFreeName_def candidateNames_def
    by (rule getPrivateNameLoop_scan) simp
  moreover have "length (candidateNames baseName) = 100"
    by (simp add: candidateNames_def)
  moreover have "[0..<99] = 0 # 1 # [2..<99]"
    by (simp add: upt_conv_Cons)
  then have "take 3 (candidateNames baseName) = [baseName, baseName @ ''0'', baseName @ ''1'']"
    by (simp add: candidateNames_def decimal.simps)
  ultimately show ?thesis by simp
qed

subsection \<open>Results\<close>

lemma bind_result_Inr:
  "bind_result r f = Some (Inr y) \<Longrightarrow> \<exists>x. r = Some (Inr x) \<and> f x = Some (Inr y)"
  by (auto simp: bind_result_def split: option.splits sum.splits)

lemma builtClass_Some:
  "builtClass r sid = Some c \<Longrightarrow> \<exists>st. r = Some (Inr st) \<and> classImplementation st sid = Some c"
  by (auto simp: builtClass_def split: option.splits sum.splits)

subsection \<open>The discriminator registry\<close>

lemma registered_empty [simp]: "registered {} v mc st = st"
  by (simp add: registered_def)

lemma setDiscriminator_idem [simp]:
  "setDiscriminator v mc (setDiscriminator v mc c) = setDiscriminator v mc c"
  by (simp add: setDiscriminator_def)

lemma parents_setDiscriminator [simp]:
  "parentModelClasses (setDiscriminator v mc c) = parentModelClasses c"
  by (simp add: setDiscriminator_def)

lemma registered_lookup:
  "classImplementation (registered A v mc st) a =
     (if a \<in> A then map_option (setDiscriminator v mc) (classImplementation st a)
      else classImplementation st a)"
  by (simp add: registered_def)

lemma registered_insert:
  assumes "classImplementation (registered A v mc st) self = Some c"
  shows "(registered A v mc st)\<lparr>classImplementation :=
            (classImplementation (registered A v mc st))(self \<mapsto> setDiscriminator v mc c)\<rparr>
         = registered (insert self A) v mc st"
proof -
  have "(classImplementation (registered A v mc st))(self \<mapsto> setDiscriminator v mc c)
        = classImplementation (registered (insert self A) v mc st)"
  proof
    fix a
    show "((classImplementation (registered A v mc st))(self \<mapsto> setDiscriminator v mc c)) a
        = classImplementation (registered (insert self A) v mc st) a"
      using assms by (auto simp: registered_lookup split: if_splits)
  qed
  then show ?thesis by (simp add: registered_def)
qed

lemma forEach_registered:
  assumes step: "\<And>p B. p \<in> set ps \<Longrightarrow>
            f p (registered B v mc st) = Some (Inr (registered (B \<union> anc p) v mc st))"
  shows "forEach f ps (registered B v mc st) = Some (Inr (registered (B \<union> (\<Union>p \<in> set ps. anc p)) v mc st))"
  using step
proof (induction ps arbitrary: B)
  case Nil
  then show ?case by simp
next
  case (Cons p ps)
  have "f p (registered B v mc st) = Some (Inr (registered (B \<union> anc p) v mc st))"
    using Cons.prems by simp
  moreover have "forEach f ps (registered (B \<union> anc p) v mc st)
      = Some (Inr (registered ((B \<union> anc p) \<union> (\<Union>q \<in> set ps. anc q)) v mc st))"
    using Cons.IH Cons.prems by simp
  moreover have "(B \<union> anc p) \<union> (\<Union>q \<in> set ps. anc q) = B \<union> (\<Union>q \<in> set (p # ps). anc q)"
    by auto
  ultimately show ?case by (simp add: bind_result_def)
qed

lemma ancestors_unfold:
  assumes "classImplementation st self = Some c"
  shows "{a. polymorphicAncestor st self a}
       = insert self (\<Union>p \<in> set (parentModelClasses c). {a. polymorphicAncestor st p a})"
proof (intro set_eqI iffI)
  fix a assume "a \<in> {a. polymorphicAncestor st self a}"
  then have "polymorphicAncestor st self a" by simp
  then show "a \<in> insert self (\<Union>p \<in> set (parentModelClasses c). {a. polymorphicAncestor st p a})"
    using assms by (cases rule: polymorphicAncestor.cases) auto
next
  fix a assume "a \<in> insert self (\<Union>p \<in> set (parentModelClasses c). {a. polymorphicAncestor st p a})"
  then show "a \<in> {a. polymorphicAncestor st self a}"
    using assms by (auto intro: polymorphicAncestor.intros)
qed

lemma addDiscriminator_registered:
  assumes "ranked rank st"
  shows "rank self < n \<Longrightarrow> classImplementation st self \<noteq> None \<Longrightarrow>
     addDiscriminator n self v mc (registered A v mc st)
       = Some (Inr (registered (A \<union> {a. polymorphicAncestor st self a}) v mc st))"
proof (induction n arbitrary: self A)
  case 0
  then show ?case by simp
next
  case (Suc n)
  from Suc.prems obtain c where c: "classImplementation st self = Some c" by auto
  define c' where "c' = (if self \<in> A then setDiscriminator v mc c else c)"
  have look: "classImplementation (registered A v mc st) self = Some c'"
    using c by (simp add: registered_lookup c'_def)
  have ps: "parentModelClasses c' = parentModelClasses c"
    by (simp add: c'_def)
  have each: "addDiscriminator n p v mc (registered B v mc st)
       = Some (Inr (registered (B \<union> {a. polymorphicAncestor st p a}) v mc st))"
    if "p \<in> set (parentModelClasses c)" for p B
  proof -
    from assms c that have "classImplementation st p \<noteq> None" "rank p < rank self"
      by (auto simp: ranked_def)
    with Suc.prems have "rank p < n" by simp
    with Suc.IH \<open>classImplementation st p \<noteq> None\<close> show ?thesis by blast
  qed
  have "addDiscriminator (Suc n) self v mc (registered A v mc st)
      = forEach (\<lambda>each. addDiscriminator n each v mc) (parentModelClasses c)
          (registered (insert self A) v mc st)"
    using look ps registered_insert [OF look] by simp
  also have "\<dots> = Some (Inr (registered (insert self A \<union>
        (\<Union>p \<in> set (parentModelClasses c). {a. polymorphicAncestor st p a})) v mc st))"
    by (rule forEach_registered) (rule each)
  also have "insert self A \<union> (\<Union>p \<in> set (parentModelClasses c). {a. polymorphicAncestor st p a})
      = A \<union> {a. polymorphicAncestor st self a}"
    unfolding ancestors_unfold [OF c] by auto
  finally show ?case .
qed

lemma ancestor_exists:
  "polymorphicAncestor st self a \<Longrightarrow> ranked rank st \<Longrightarrow> classImplementation st self \<noteq> None \<Longrightarrow>
   classImplementation st a \<noteq> None"
  by (induction rule: polymorphicAncestor.induct) (auto simp: ranked_def)

lemma registered_parents:
  "(\<exists>c. classImplementation (registered A v mc st) a = Some c \<and> p \<in> set (parentModelClasses c))
   = (\<exists>c. classImplementation st a = Some c \<and> p \<in> set (parentModelClasses c))"
  by (cases "classImplementation st a") (auto simp: registered_lookup)

lemma registered_ancestor:
  "polymorphicAncestor (registered A v mc st) self a = polymorphicAncestor st self a"
proof
  assume "polymorphicAncestor (registered A v mc st) self a"
  then show "polymorphicAncestor st self a"
  proof (induction rule: polymorphicAncestor.induct)
    case (itself a)
    then show ?case by (rule polymorphicAncestor.itself)
  next
    case (parent a c p q)
    then have "\<exists>c. classImplementation (registered A v mc st) a = Some c \<and> p \<in> set (parentModelClasses c)"
      by blast
    then obtain c0 where "classImplementation st a = Some c0" "p \<in> set (parentModelClasses c0)"
      using registered_parents [of A v mc st a p] by blast
    with parent.IH show ?case by (blast intro: polymorphicAncestor.parent)
  qed
next
  assume "polymorphicAncestor st self a"
  then show "polymorphicAncestor (registered A v mc st) self a"
  proof (induction rule: polymorphicAncestor.induct)
    case (itself a)
    then show ?case by (rule polymorphicAncestor.itself)
  next
    case (parent a c p q)
    then have "\<exists>c. classImplementation st a = Some c \<and> p \<in> set (parentModelClasses c)"
      by blast
    then obtain c0 where "classImplementation (registered A v mc st) a = Some c0"
        "p \<in> set (parentModelClasses c0)"
      using registered_parents [of A v mc st a p] by blast
    with parent.IH show ?case by (blast intro: polymorphicAncestor.parent)
  qed
qed

lemma registered_ranked: "ranked rank (registered A v mc st) = ranked rank st"
  unfolding ranked_def registered_lookup
  by (auto split: if_splits) (metis parents_setDiscriminator)+

lemma addDiscriminator_reaches:
  assumes "ranked rank st" and "rank P < n" and "classImplementation st P \<noteq> None"
    and "polymorphicAncestor st P A"
  shows "\<exists>c. addDiscriminator n P v D st
               = Some (Inr (registered {a. polymorphicAncestor st P a} v D st))
           \<and> classImplementation (registered {a. polymorphicAncestor st P a} v D st) A = Some c
           \<and> discriminators c v = Some D"
proof -
  have "addDiscriminator n P v D (registered {} v D st)
      = Some (Inr (registered ({} \<union> {a. polymorphicAncestor st P a}) v D st))"
    using assms(1,2,3) by (rule addDiscriminator_registered)
  moreover from assms obtain c0 where "classImplementation st A = Some c0"
    using ancestor_exists by blast
  ultimately show ?thesis
    using assms(4) by (simp add: registered_lookup setDiscriminator_def)
qed

text \<open>A registration leaves the entries under every other value as they are.\<close>

lemma other_values_keep_their_entry:
  assumes "ranked rank st" and "rank P < n" and "classImplementation st P \<noteq> None"
    and "w \<noteq> v" and "classImplementation st A = Some c"
  shows "\<exists>st' c'. addDiscriminator n P v D st = Some (Inr st')
           \<and> classImplementation st' A = Some c' \<and> discriminators c' w = discriminators c w"
proof -
  have "addDiscriminator n P v D (registered {} v D st)
      = Some (Inr (registered ({} \<union> {a. polymorphicAncestor st P a}) v D st))"
    using assms(1,2,3) by (rule addDiscriminator_registered)
  then show ?thesis
    using assms(4,5) by (simp add: registered_lookup setDiscriminator_def)
qed

subsection \<open>What the constructor leaves alone\<close>

lemma pres_refl: "stable env R \<Longrightarrow> pres R st st"
  by (simp add: stable_def pres_def)

lemma pres_trans: "stable env R \<Longrightarrow> pres R a b \<Longrightarrow> pres R b c \<Longrightarrow> pres R a c"
  unfolding stable_def pres_def by (metis option.inject)

lemma updateClass_pres:
  assumes "stable env R" and "\<And>c. R c (f c)" and "updateClass s f st = Some (Inr st')"
  shows "pres R st st'"
  using assms unfolding updateClass_def pres_def stable_def
  by (auto split: option.splits)

lemma forEach_pres:
  assumes "stable env R" and "\<And>x s s'. f x s = Some (Inr s') \<Longrightarrow> pres R s s'"
  shows "forEach f xs s = Some (Inr s') \<Longrightarrow> pres R s s'"
proof (induction xs arbitrary: s)
  case Nil
  then show ?case using assms(1) by (simp add: pres_refl)
next
  case (Cons x xs)
  from Cons.prems obtain m where "f x s = Some (Inr m)" "forEach f xs m = Some (Inr s')"
    by (auto dest: bind_result_Inr)
  then show ?case using assms Cons.IH pres_trans by blast
qed

lemma addDiscriminator_pres:
  assumes "stable env R"
  shows "addDiscriminator n self v mc st = Some (Inr st') \<Longrightarrow> pres R st st'"
proof (induction n arbitrary: self st st')
  case 0
  then show ?case by simp
next
  case (Suc n)
  from Suc.prems obtain c where c: "classImplementation st self = Some c"
    by (auto split: option.splits)
  let ?m = "st\<lparr>classImplementation := (classImplementation st)(self \<mapsto> setDiscriminator v mc c)\<rparr>"
  have "updateClass self (setDiscriminator v mc) st = Some (Inr ?m)"
    using c by (simp add: updateClass_def)
  with assms have one: "pres R st ?m"
    by (auto intro!: updateClass_pres [where f = "setDiscriminator v mc"] simp: stable_def)
  from Suc.prems c have "forEach (\<lambda>each. addDiscriminator n each v mc) (parentModelClasses c) ?m = Some (Inr st')"
    by simp
  then have "pres R ?m st'"
    using assms Suc.IH by (rule_tac forEach_pres) auto
  with one assms show ?case by (blast intro: pres_trans)
qed

lemma resolve_pres:
  assumes "stable env R" and "framed R build"
    and "resolveTypeDeclaration build s st = Some (Inr st')"
  shows "pres R st st'"
  using assms unfolding resolveTypeDeclaration_def framed_def
  by (auto split: option.splits intro: pres_refl)

lemma tellParent_pres:
  assumes "stable env R" and "framed R build"
    and "tellParent n build self v p st = Some (Inr st')"
  shows "pres R st st'"
proof -
  from assms(3) obtain st1 where r: "resolveTypeDeclaration build p st = Some (Inr st1)"
    and rest: "(case classImplementation st1 p of
         None \<Rightarrow> Some (Inl TypeError)
       | Some parentClass \<Rightarrow>
           if isPolymorphic parentClass then
             bind_result (updateClass self (pushParentModelClass p) st1)
               (addDiscriminator n p v self)
           else Some (Inr st1)) = Some (Inr st')"
    unfolding tellParent_def by (auto dest: bind_result_Inr)
  from r assms have a: "pres R st st1" by (blast intro: resolve_pres)
  from rest obtain pc where pc: "classImplementation st1 p = Some pc"
    by (auto split: option.splits)
  show ?thesis
  proof (cases "isPolymorphic pc")
    case True
    with rest pc obtain st2 where u: "updateClass self (pushParentModelClass p) st1 = Some (Inr st2)"
      and d: "addDiscriminator n p v self st2 = Some (Inr st')"
      by (auto dest: bind_result_Inr)
    from u assms(1) have "pres R st1 st2"
      by (auto intro!: updateClass_pres [where f = "pushParentModelClass p"] simp: stable_def)
    moreover from d assms(1) have "pres R st2 st'" by (rule addDiscriminator_pres [rotated])
    ultimately show ?thesis using a assms(1) by (blast intro: pres_trans)
  next
    case False
    with rest pc a show ?thesis by simp
  qed
qed

lemma tellParents_pres:
  assumes "stable env R" and "framed R build"
    and "tellParents n build self schema st = Some (Inr st')"
  shows "pres R st st'"
proof (cases "truthyString (x_ms_discriminator_value schema)")
  case True
  with assms(3) have "forEach (tellParent n build self (the (x_ms_discriminator_value schema)))
      (allOf schema) st = Some (Inr st')"
    by (simp add: tellParents_def)
  then show ?thesis
    using assms(1,2) by (rule_tac forEach_pres) (auto intro: tellParent_pres)
next
  case False
  with assms show ?thesis by (simp add: tellParents_def pres_refl)
qed

lemma implement_pres:
  assumes "stable env R" and "framed R build"
  shows "implementInterfaceForParentSchema n build env self p st = Some (Inr st') \<Longrightarrow> pres R st st'"
proof (induction n arbitrary: st st')
  case 0
  then show ?case by simp
next
  case (Suc n)
  from Suc.prems obtain st1 where r: "resolveTypeDeclaration build p st = Some (Inr st1)"
    and rest: "(case interfaceImplementation st1 self of
         None \<Rightarrow> Some (Inl TypeError)
       | Some ifaces \<Rightarrow>
           if truthyNumber (indexOf ifaces (ModelInterfaceOf p)) then Some (Inr st1)
           else
             (case (classImplementation st1 p, classImplementation st1 self, schemas env p) of
                (Some parentClass, Some c, Some parent) \<Rightarrow>
                  (case getPrivateNameForField (class_fields c)
                          (privateFieldBaseName env (fullName parentClass)) of
                     Inl e \<Rightarrow> Some (Inl e)
                   | Inr fieldName \<Rightarrow>
                       forEach
                         (\<lambda>each. implementInterfaceForParentSchema n build env self p)
                         (allOf parent)
                         (st1\<lparr>classImplementation :=
                                (classImplementation st1)
                                  (self \<mapsto> flattenParent env p (fullName parentClass) fieldName c),
                              interfaceImplementation :=
                                (interfaceImplementation st1)
                                  (self \<mapsto> ifaces @ [ModelInterfaceOf p])\<rparr>))
              | _ \<Rightarrow> Some (Inl TypeError))) = Some (Inr st')"
    by (auto dest: bind_result_Inr)
  from r assms have a: "pres R st st1" by (blast intro: resolve_pres)
  from rest obtain ifaces where ifs: "interfaceImplementation st1 self = Some ifaces"
    by (auto split: option.splits)
  show ?case
  proof (cases "truthyNumber (indexOf ifaces (ModelInterfaceOf p))")
    case True
    with rest ifs a show ?thesis by simp
  next
    case False
    with rest ifs have "\<exists>pc c parent fieldName.
        classImplementation st1 p = Some pc \<and> classImplementation st1 self = Some c
        \<and> schemas env p = Some parent
        \<and> getPrivateNameForField (class_fields c) (privateFieldBaseName env (fullName pc)) = Inr fieldName
        \<and> forEach (\<lambda>each. implementInterfaceForParentSchema n build env self p) (allOf parent)
                 (st1\<lparr>classImplementation :=
                        (classImplementation st1)(self \<mapsto> flattenParent env p (fullName pc) fieldName c),
                      interfaceImplementation :=
                        (interfaceImplementation st1)(self \<mapsto> ifaces @ [ModelInterfaceOf p])\<rparr>)
               = Some (Inr st')"
      by (auto split: option.splits sum.splits)
    then obtain pc c parent fieldName where
      pc: "classImplementation st1 p = Some pc" and c: "classImplementation st1 self = Some c"
      and "schemas env p = Some parent"
      and "getPrivateNameForField (class_fields c) (privateFieldBaseName env (fullName pc)) = Inr fieldName"
      and fe: "forEach (\<lambda>each. implementInterfaceForParentSchema n build env self p) (allOf parent)
                 (st1\<lparr>classImplementation :=
                        (classImplementation st1)(self \<mapsto> flattenParent env p (fullName pc) fieldName c),
                      interfaceImplementation :=
                        (interfaceImplementation st1)(self \<mapsto> ifaces @ [ModelInterfaceOf p])\<rparr>)
               = Some (Inr st')"
      by (elim exE conjE) (rule that; assumption)
    let ?m = "st1\<lparr>classImplementation :=
                        (classImplementation st1)(self \<mapsto> flattenParent env p (fullName pc) fieldName c),
                      interfaceImplementation :=
                        (interfaceImplementation st1)(self \<mapsto> ifaces @ [ModelInterfaceOf p])\<rparr>"
    have "pres R st1 ?m"
      using assms(1) c unfolding pres_def stable_def by auto
    moreover from fe have "pres R ?m st'"
      using assms(1) Suc.IH by (rule_tac forEach_pres) auto
    ultimately show ?thesis using a assms(1) by (blast intro: pres_trans)
  qed
qed

lemma constructor_steps:
  assumes "ModelClass_constructor (Suc n) env sid st = Some (Inr st')"
  obtains schema st1 st2 st3 where "schemas env sid = Some schema"
    and "tellParents n (ModelClass_constructor n env) sid schema (constructorHead env sid schema st) = Some (Inr st1)"
    and "updateClass sid addDefaultConstructor st1 = Some (Inr st2)"
    and "forEach (implementInterfaceForParentSchema n (ModelClass_constructor n env) env sid) (allOf schema) st2 = Some (Inr st3)"
    and "updateClass sid (constructorTail env schema) st3 = Some (Inr st')"
proof -
  from assms obtain schema where s: "schemas env sid = Some schema"
    by (auto split: option.splits)
  with assms have "bind_result
            (tellParents n (ModelClass_constructor n env) sid schema
               (constructorHead env sid schema st)) (\<lambda>st1.
          bind_result (updateClass sid addDefaultConstructor st1) (\<lambda>st2.
          bind_result
            (forEach (implementInterfaceForParentSchema n (ModelClass_constructor n env) env sid)
               (allOf schema) st2) (\<lambda>st3.
          updateClass sid (constructorTail env schema) st3))) = Some (Inr st')"
    by simp
  then show thesis
    using s that by (blast dest: bind_result_Inr)
qed

lemma prefix_pres:
  assumes "stable env R" and "framed R build"
    and "tellParents n build sid schema st0 = Some (Inr st1)"
    and "updateClass sid addDefaultConstructor st1 = Some (Inr st2)"
    and "forEach (implementInterfaceForParentSchema n build env sid) (allOf schema) st2 = Some (Inr st3)"
  shows "pres R st0 st3"
proof -
  have "pres R st0 st1" using assms(1,2,3) by (rule tellParents_pres)
  moreover have "pres R st1 st2"
    using assms(1,4) by (auto intro!: updateClass_pres [where f = addDefaultConstructor] simp: stable_def)
  moreover have "pres R st2 st3"
    using assms(5,1,2) by (rule_tac forEach_pres) (auto intro: implement_pres)
  ultimately show ?thesis using assms(1) by (blast intro: pres_trans)
qed

lemma constructor_framed:
  assumes "stable env R"
  shows "framed R (ModelClass_constructor n env)"
proof (induction n)
  case 0
  then show ?case by (simp add: framed_def)
next
  case (Suc n)
  show ?case
    unfolding framed_def
  proof (intro allI impI)
    fix sid st st'
    assume absent: "classImplementation st sid = None"
      and run: "ModelClass_constructor (Suc n) env sid st = Some (Inr st')"
    from run obtain schema st1 st2 st3 where
      "tellParents n (ModelClass_constructor n env) sid schema (constructorHead env sid schema st) = Some (Inr st1)"
      "updateClass sid addDefaultConstructor st1 = Some (Inr st2)"
      "forEach (implementInterfaceForParentSchema n (ModelClass_constructor n env) env sid) (allOf schema) st2 = Some (Inr st3)"
      and last: "updateClass sid (constructorTail env schema) st3 = Some (Inr st')"
      by (rule constructor_steps)
    with assms Suc.IH have p: "pres R (constructorHead env sid schema st) st3"
      by (blast intro: prefix_pres)
    show "pres R st st'"
      unfolding pres_def
    proof (intro allI impI)
      fix s c assume sc: "classImplementation st s = Some c"
      with absent have ne: "s \<noteq> sid" by auto
      with sc have "classImplementation (constructorHead env sid schema st) s = Some c"
        by (simp add: constructorHead_def Let_def)
      with p obtain c' where "classImplementation st3 s = Some c'" "R c c'"
        by (auto simp: pres_def)
      moreover from last ne have "classImplementation st' s = classImplementation st3 s"
        by (auto simp: updateClass_def split: option.splits)
      ultimately show "\<exists>c'. classImplementation st' s = Some c' \<and> R c c'" by simp
    qed
  qed
qed

lemma constructorHead_class:
  "classImplementation (constructorHead env sid schema st) sid = Some (headClass sid schema)"
  by (simp add: constructorHead_def headClass_def Let_def newModelClass_def)

lemma constructor_own:
  assumes "stable env R" and "ModelClass_constructor n env sid st = Some (Inr st')"
  shows "\<exists>schema c. schemas env sid = Some schema \<and> R (headClass sid schema) c
           \<and> classImplementation st' sid = Some (constructorTail env schema c)"
proof (cases n)
  case 0
  with assms show ?thesis by simp
next
  case (Suc m)
  from assms(2) [unfolded Suc] obtain schema st1 st2 st3 where s: "schemas env sid = Some schema" and
      "tellParents m (ModelClass_constructor m env) sid schema (constructorHead env sid schema st) = Some (Inr st1)"
      "updateClass sid addDefaultConstructor st1 = Some (Inr st2)"
      "forEach (implementInterfaceForParentSchema m (ModelClass_constructor m env) env sid) (allOf schema) st2 = Some (Inr st3)"
      and last: "updateClass sid (constructorTail env schema) st3 = Some (Inr st')"
    by (rule constructor_steps)
  with assms(1) constructor_framed [OF assms(1), of m]
  have "pres R (constructorHead env sid schema st) st3"
    by (blast intro: prefix_pres)
  then obtain c where c: "classImplementation st3 sid = Some c" "R (headClass sid schema) c"
    using constructorHead_class [of env sid schema st] by (auto simp: pres_def)
  with last have "classImplementation st' sid = Some (constructorTail env schema c)"
    by (auto simp: updateClass_def)
  with s c show ?thesis by blast
qed

lemma fold_keeps:
  assumes "\<And>x c. f (g x c) = f c"
  shows "f (fold g xs c) = f c"
  by (induction xs arbitrary: c) (simp_all add: assms)

lemma fold_addInheritedProperty:
  "fold addInheritedProperty ps c = c\<lparr>class_properties := class_properties c @ map proxyFor ps\<rparr>"
  by (induction ps arbitrary: c) (simp_all add: addInheritedProperty_def)

lemma flattenParent_untouched: "untouched c (flattenParent env p cn fn c)"
  unfolding untouched_def flattenParent_def Let_def fold_addInheritedProperty
  by auto

lemma stable_untouched: "stable env untouched"
  unfolding stable_def
proof (intro conjI allI impI)
  fix p cn fn c show "untouched c (flattenParent env p cn fn c)"
    by (rule flattenParent_untouched)
qed (auto simp: untouched_def setDiscriminator_def pushParentModelClass_def addDefaultConstructor_def)

lemma constructor_untouched:
  assumes "ModelClass_constructor n env sid st = Some (Inr st')"
  shows "\<exists>schema c. schemas env sid = Some schema \<and> untouched (headClass sid schema) c
           \<and> classImplementation st' sid = Some (constructorTail env schema c)"
  using stable_untouched assms by (rule constructor_own)

lemma headClass_simps [simp]:
  "isPolymorphic (headClass sid schema) = (discriminator schema \<noteq> None)"
  "validateMethod (headClass sid schema) = None"
  "interfaces (headClass sid schema) = [ModelInterfaceOf sid]"
  "dictionaryOf (headClass sid schema) = None"
  "hasHeaderProperties (headClass sid schema) = list_ex isHeader (map snd (properties schema))"
  "methods (headClass sid schema) = []"
  "class_properties (headClass sid schema) = []"
  by (simp_all add: headClass_def newModelClass_def Let_def)

lemma addProperty_keeps [simp]:
  "isPolymorphic (addProperty env e c) = isPolymorphic c"
  "validateMethod (addProperty env e c) = validateMethod c"
  "interfaces (addProperty env e c) = interfaces c"
  "dictionaryOf (addProperty env e c) = dictionaryOf c"
  "hasHeaderProperties (addProperty env e c) = hasHeaderProperties c"
  "methods (addProperty env e c) = methods c"
  "class_properties (addProperty env e c) = class_properties c"
  by (simp_all add: addProperty_def Let_def)

lemma handleAdditionalProperties_keeps [simp]:
  "isPolymorphic (handleAdditionalProperties schema c) = isPolymorphic c"
  "validateMethod (handleAdditionalProperties schema c) = validateMethod c"
  "interfaces (handleAdditionalProperties schema c) = interfaces c"
  "hasHeaderProperties (handleAdditionalProperties schema c) = hasHeaderProperties c"
  "methods (handleAdditionalProperties schema c) = methods c"
  "class_properties (handleAdditionalProperties schema c) = class_properties c"
  "validationStatements (handleAdditionalProperties schema c) = validationStatements c"
  by (simp_all add: handleAdditionalProperties_def implementIDictionary_def)

lemma attachValidation_keeps [simp]:
  "isPolymorphic (attachValidation env c) = isPolymorphic c"
  "dictionaryOf (attachValidation env c) = dictionaryOf c"
  "hasHeaderProperties (attachValidation env c) = hasHeaderProperties c"
  "class_properties (attachValidation env c) = class_properties c"
  "validationStatements (attachValidation env c) = validationStatements c"
  by (simp_all add: attachValidation_def)

lemma attachReadHeaders_keeps [simp]:
  "isPolymorphic (attachReadHeaders c) = isPolymorphic c"
  "validateMethod (attachReadHeaders c) = validateMethod c"
  "interfaces (attachReadHeaders c) = interfaces c"
  "dictionaryOf (attachReadHeaders c) = dictionaryOf c"
  "hasHeaderProperties (attachReadHeaders c) = hasHeaderProperties c"
  "class_properties (attachReadHeaders c) = class_properties c"
  "validationStatements (attachReadHeaders c) = validationStatements c"
  by (simp_all add: attachReadHeaders_def)

lemmas fold_addProperty_keeps [simp] =
  fold_keeps [where g = "addProperty env" and f = isPolymorphic for env, OF addProperty_keeps(1)]
  fold_keeps [where g = "addProperty env" and f = validateMethod for env, OF addProperty_keeps(2)]
  fold_keeps [where g = "addProperty env" and f = interfaces for env, OF addProperty_keeps(3)]
  fold_keeps [where g = "addProperty env" and f = dictionaryOf for env, OF addProperty_keeps(4)]
  fold_keeps [where g = "addProperty env" and f = hasHeaderProperties for env, OF addProperty_keeps(5)]
  fold_keeps [where g = "addProperty env" and f = methods for env, OF addProperty_keeps(6)]
  fold_keeps [where g = "addProperty env" and f = class_properties for env, OF addProperty_keeps(7)]

subsection \<open>Built stores have no cycle\<close>

lemma forEach_invariant:
  assumes "\<And>x s s'. x \<in> set xs \<Longrightarrow> I s \<Longrightarrow> f x s = Some (Inr s') \<Longrightarrow> I s'"
    and "I s" and "forEach f xs s = Some (Inr s')"
  shows "I s'"
  using assms
proof (induction xs arbitrary: s)
  case Nil
  then show ?case by simp
next
  case (Cons x xs)
  from Cons.prems(3) have "\<exists>m. f x s = Some (Inr m) \<and> forEach f xs m = Some (Inr s')"
    by (simp only: forEach.simps) (rule bind_result_Inr)
  then obtain m where m: "f x s = Some (Inr m)" "forEach f xs m = Some (Inr s')"
    by (elim exE conjE)
  have "x \<in> set (x # xs)" by simp
  then have Im: "I m" using Cons.prems(2) m(1) by (rule Cons.prems(1))
  show ?case
  proof (rule Cons.IH [OF _ Im m(2)])
    fix y t t' assume y: "y \<in> set xs" and t: "I t" "f y t = Some (Inr t')"
    from y have "y \<in> set (x # xs)" by simp
    then show "I t'" using t by (rule Cons.prems(1))
  qed
qed

lemma updateClass_ranked:
  assumes "ranked rank st" and "\<And>c. parentModelClasses (f c) = parentModelClasses c"
    and "updateClass s f st = Some (Inr st')"
  shows "ranked rank st'"
proof -
  from assms(3) obtain c where c: "classImplementation st s = Some c"
    and st': "st' = st\<lparr>classImplementation := (classImplementation st)(s \<mapsto> f c)\<rparr>"
    by (auto simp: updateClass_def split: option.splits)
  show ?thesis
    unfolding ranked_def
  proof (intro allI impI ballI)
    fix a d p assume d: "classImplementation st' a = Some d" and p: "p \<in> set (parentModelClasses d)"
    from d st' c obtain d0 where "classImplementation st a = Some d0"
        "parentModelClasses d0 = parentModelClasses d"
      using assms(2) by (cases "a = s") auto
    with assms(1) p have "classImplementation st p \<noteq> None" "rank p < rank a"
      by (auto simp: ranked_def)
    then show "classImplementation st' p \<noteq> None \<and> rank p < rank a"
      by (simp add: st')
  qed
qed

lemma addDiscriminator_ranked:
  "ranked rank st \<Longrightarrow> addDiscriminator n self v mc st = Some (Inr st') \<Longrightarrow> ranked rank st'"
proof (induction n arbitrary: self st st')
  case 0
  then show ?case by simp
next
  case (Suc n)
  from Suc.prems(2) obtain c where c: "classImplementation st self = Some c"
    by (auto split: option.splits)
  let ?m = "st\<lparr>classImplementation := (classImplementation st)(self \<mapsto> setDiscriminator v mc c)\<rparr>"
  have upd: "updateClass self (setDiscriminator v mc) st = Some (Inr ?m)"
    using c by (simp add: updateClass_def)
  have m: "ranked rank ?m"
    by (rule updateClass_ranked [OF Suc.prems(1) _ upd]) simp
  from Suc.prems(2) c
  have fe: "forEach (\<lambda>each. addDiscriminator n each v mc) (parentModelClasses c) ?m = Some (Inr st')"
    by simp
  show ?case
    by (rule forEach_invariant [where I = "ranked rank", OF _ m fe]) (rule Suc.IH)
qed

lemma resolve_ranked:
  assumes "keepsRanked rank build" and "ranked rank st"
    and "resolveTypeDeclaration build s st = Some (Inr st')"
  shows "ranked rank st'"
  using assms unfolding resolveTypeDeclaration_def keepsRanked_def
  by (auto split: option.splits)

lemma pushParent_ranked:
  assumes "ranked rank st" and "classImplementation st p \<noteq> None" and "rank p < rank self"
    and "updateClass self (pushParentModelClass p) st = Some (Inr st')"
  shows "ranked rank st'"
proof -
  from assms(4) obtain c where c: "classImplementation st self = Some c"
    and st': "st' = st\<lparr>classImplementation := (classImplementation st)(self \<mapsto> pushParentModelClass p c)\<rparr>"
    by (auto simp: updateClass_def split: option.splits)
  show ?thesis
    unfolding ranked_def
  proof (intro allI impI ballI)
    fix a d q assume d: "classImplementation st' a = Some d" and q: "q \<in> set (parentModelClasses d)"
    have "classImplementation st q \<noteq> None \<and> rank q < rank a"
    proof (cases "a = self")
      case True
      with d st' have "d = pushParentModelClass p c" by simp
      with q have "q \<in> set (parentModelClasses c) \<or> q = p"
        by (auto simp: pushParentModelClass_def)
      with assms(1,2,3) c True show ?thesis by (auto simp: ranked_def)
    next
      case False
      with d st' have "classImplementation st a = Some d" by simp
      with assms(1) q show ?thesis by (auto simp: ranked_def)
    qed
    then show "classImplementation st' q \<noteq> None \<and> rank q < rank a"
      by (simp add: st')
  qed
qed

lemma tellParent_ranked:
  assumes "keepsRanked rank build" and "ranked rank st" and "rank p < rank self"
    and "tellParent n build self v p st = Some (Inr st')"
  shows "ranked rank st'"
proof -
  from assms(4) obtain st1 where r: "resolveTypeDeclaration build p st = Some (Inr st1)"
    and rest: "(case classImplementation st1 p of
         None \<Rightarrow> Some (Inl TypeError)
       | Some parentClass \<Rightarrow>
           if isPolymorphic parentClass then
             bind_result (updateClass self (pushParentModelClass p) st1)
               (addDiscriminator n p v self)
           else Some (Inr st1)) = Some (Inr st')"
    unfolding tellParent_def by (auto dest: bind_result_Inr)
  from assms(1,2) r have a: "ranked rank st1" by (rule resolve_ranked)
  from rest obtain pc where pc: "classImplementation st1 p = Some pc"
    by (auto split: option.splits)
  show ?thesis
  proof (cases "isPolymorphic pc")
    case True
    with rest pc obtain st2 where u: "updateClass self (pushParentModelClass p) st1 = Some (Inr st2)"
      and d: "addDiscriminator n p v self st2 = Some (Inr st')"
      by (auto dest: bind_result_Inr)
    from a pc assms(3) u have "ranked rank st2"
      by (auto intro: pushParent_ranked)
    with d show ?thesis by (blast intro: addDiscriminator_ranked)
  next
    case False
    with rest pc a show ?thesis by simp
  qed
qed

lemma tellParents_ranked:
  assumes "keepsRanked rank build" and "ranked rank st"
    and "\<forall>p \<in> set (allOf schema). rank p < rank self"
    and "tellParents n build self schema st = Some (Inr st')"
  shows "ranked rank st'"
proof (cases "truthyString (x_ms_discriminator_value schema)")
  case True
  with assms(4) have fe: "forEach (tellParent n build self (the (x_ms_discriminator_value schema)))
      (allOf schema) st = Some (Inr st')"
    by (simp add: tellParents_def)
  show ?thesis
  proof (rule forEach_invariant [where I = "ranked rank", OF _ assms(2) fe])
    fix x s s'
    assume "x \<in> set (allOf schema)" "ranked rank s"
      "tellParent n build self (the (x_ms_discriminator_value schema)) x s = Some (Inr s')"
    with assms(1,3) show "ranked rank s'"
      by (blast intro: tellParent_ranked)
  qed
next
  case False
  with assms show ?thesis by (simp add: tellParents_def)
qed

lemma parents_flattenParent [simp]:
  "parentModelClasses (flattenParent env p cn fn c) = parentModelClasses c"
  by (simp add: flattenParent_def Let_def fold_addInheritedProperty)

lemma implement_ranked:
  assumes "keepsRanked rank build"
  shows "ranked rank st \<Longrightarrow>
     implementInterfaceForParentSchema n build env self p st = Some (Inr st') \<Longrightarrow> ranked rank st'"
proof (induction n arbitrary: st st')
  case 0
  then show ?case by simp
next
  case (Suc n)
  from Suc.prems(2) obtain st1 where r: "resolveTypeDeclaration build p st = Some (Inr st1)"
    and rest: "(case interfaceImplementation st1 self of
         None \<Rightarrow> Some (Inl TypeError)
       | Some ifaces \<Rightarrow>
           if truthyNumber (indexOf ifaces (ModelInterfaceOf p)) then Some (Inr st1)
           else
             (case (classImplementation st1 p, classImplementation st1 self, schemas env p) of
                (Some parentClass, Some c, Some parent) \<Rightarrow>
                  (case getPrivateNameForField (class_fields c)
                          (privateFieldBaseName env (fullName parentClass)) of
                     Inl e \<Rightarrow> Some (Inl e)
                   | Inr fieldName \<Rightarrow>
                       forEach
                         (\<lambda>each. implementInterfaceForParentSchema n build env self p)
                         (allOf parent)
                         (st1\<lparr>classImplementation :=
                                (classImplementation st1)
                                  (self \<mapsto> flattenParent env p (fullName parentClass) fieldName c),
                              interfaceImplementation :=
                                (interfaceImplementation st1)
                                  (self \<mapsto> ifaces @ [ModelInterfaceOf p])\<rparr>))
              | _ \<Rightarrow> Some (Inl TypeError))) = Some (Inr st')"
    by (auto dest: bind_result_Inr)
  from assms Suc.prems(1) r have a: "ranked rank st1" by (rule resolve_ranked)
  from rest obtain ifaces where ifs: "interfaceImplementation st1 self = Some ifaces"
    by (auto split: option.splits)
  show ?case
  proof (cases "truthyNumber (indexOf ifaces (ModelInterfaceOf p))")
    case True
    with rest ifs a show ?thesis by simp
  next
    case False
    with rest ifs have "\<exists>pc c parent fieldName.
        classImplementation st1 p = Some pc \<and> classImplementation st1 self = Some c
        \<and> schemas env p = Some parent
        \<and> getPrivateNameForField (class_fields c) (privateFieldBaseName env (fullName pc)) = Inr fieldName
        \<and> forEach (\<lambda>each. implementInterfaceForParentSchema n build env self p) (allOf parent)
                 (st1\<lparr>classImplementation :=
                        (classImplementation st1)(self \<mapsto> flattenParent env p (fullName pc) fieldName c),
                      interfaceImplementation :=
                        (interfaceImplementation st1)(self \<mapsto> ifaces @ [ModelInterfaceOf p])\<rparr>)
               = Some (Inr st')"
      by (auto split: option.splits sum.splits)
    then obtain pc c parent fieldName where
      "classImplementation st1 p = Some pc" and c: "classImplementation st1 self = Some c"
      and "schemas env p = Some parent"
      and "getPrivateNameForField (class_fields c) (privateFieldBaseName env (fullName pc)) = Inr fieldName"
      and fe: "forEach (\<lambda>each. implementInterfaceForParentSchema n build env self p) (allOf parent)
                 (st1\<lparr>classImplementation :=
                        (classImplementation st1)(self \<mapsto> flattenParent env p (fullName pc) fieldName c),
                      interfaceImplementation :=
                        (interfaceImplementation st1)(self \<mapsto> ifaces @ [ModelInterfaceOf p])\<rparr>)
               = Some (Inr st')"
      by (elim exE conjE) (rule that; assumption)
    let ?u = "st1\<lparr>classImplementation :=
                        (classImplementation st1)(self \<mapsto> flattenParent env p (fullName pc) fieldName c)\<rparr>"
    let ?m = "st1\<lparr>classImplementation :=
                        (classImplementation st1)(self \<mapsto> flattenParent env p (fullName pc) fieldName c),
                      interfaceImplementation :=
                        (interfaceImplementation st1)(self \<mapsto> ifaces @ [ModelInterfaceOf p])\<rparr>"
    have upd: "updateClass self (flattenParent env p (fullName pc) fieldName) st1 = Some (Inr ?u)"
      using c by (simp add: updateClass_def)
    have "ranked rank ?u"
      by (rule updateClass_ranked [OF a _ upd]) simp
    then have m: "ranked rank ?m"
      by (simp add: ranked_def)
    show ?thesis
      by (rule forEach_invariant [where I = "ranked rank", OF _ m fe]) (rule Suc.IH)
  qed
qed

lemma constructorHead_ranked:
  assumes "ranked rank st"
  shows "ranked rank (constructorHead env sid schema st)"
  unfolding ranked_def
proof (intro allI impI ballI)
  fix a d p
  assume d: "classImplementation (constructorHead env sid schema st) a = Some d"
    and p: "p \<in> set (parentModelClasses d)"
  have head: "classImplementation (constructorHead env sid schema st)
      = (classImplementation st)(sid \<mapsto> headClass sid schema)"
    by (simp add: constructorHead_def headClass_def Let_def newModelClass_def)
  have "parentModelClasses (headClass sid schema) = []"
    by (simp add: headClass_def newModelClass_def Let_def)
  with d p head have "a \<noteq> sid" "classImplementation st a = Some d"
    by (auto split: if_splits)
  with assms p have "classImplementation st p \<noteq> None" "rank p < rank a"
    by (auto simp: ranked_def)
  then show "classImplementation (constructorHead env sid schema st) p \<noteq> None \<and> rank p < rank a"
    by (simp add: head)
qed

lemma parents_constructorTail [simp]:
  "parentModelClasses (constructorTail env schema c) = parentModelClasses c"
proof -
  have "parentModelClasses (fold (addProperty env) ps c) = parentModelClasses c" for ps
    by (induction ps arbitrary: c) (simp_all add: addProperty_def Let_def)
  then show ?thesis
    by (simp add: constructorTail_def attachReadHeaders_def attachValidation_def
        handleAdditionalProperties_def implementIDictionary_def)
qed

lemma constructor_ranked:
  assumes "acyclicSchemas rank env"
  shows "keepsRanked rank (ModelClass_constructor n env)"
proof (induction n)
  case 0
  then show ?case by (simp add: keepsRanked_def)
next
  case (Suc n)
  show ?case
    unfolding keepsRanked_def
  proof (intro allI impI)
    fix sid st st'
    assume st: "ranked rank st"
      and run: "ModelClass_constructor (Suc n) env sid st = Some (Inr st')"
    from run obtain schema st1 st2 st3 where schema: "schemas env sid = Some schema"
      and 1: "tellParents n (ModelClass_constructor n env) sid schema (constructorHead env sid schema st) = Some (Inr st1)"
      and 2: "updateClass sid addDefaultConstructor st1 = Some (Inr st2)"
      and 3: "forEach (implementInterfaceForParentSchema n (ModelClass_constructor n env) env sid) (allOf schema) st2 = Some (Inr st3)"
      and 4: "updateClass sid (constructorTail env schema) st3 = Some (Inr st')"
      by (rule constructor_steps)
    from assms schema have below: "\<forall>p \<in> set (allOf schema). rank p < rank sid"
      by (auto simp: acyclicSchemas_def)
    from st have "ranked rank (constructorHead env sid schema st)"
      by (rule constructorHead_ranked)
    with Suc.IH below 1 have "ranked rank st1"
      by (blast intro: tellParents_ranked)
    then have st2: "ranked rank st2"
      by (rule updateClass_ranked [OF _ _ 2]) (simp add: addDefaultConstructor_def)
    have "ranked rank st3"
    proof (rule forEach_invariant [where I = "ranked rank", OF _ st2 3])
      fix x s s'
      assume "ranked rank s"
        "implementInterfaceForParentSchema n (ModelClass_constructor n env) env sid x s = Some (Inr s')"
      with Suc.IH show "ranked rank s'"
        by (blast intro: implement_ranked)
    qed
    then show "ranked rank st'"
      by (rule updateClass_ranked [OF _ _ 4]) simp
  qed
qed

lemma emptyState_ranked: "ranked rank emptyState"
  by (simp add: ranked_def emptyState_def)

lemma built_store_is_ranked:
  assumes "acyclicSchemas rank env" and "ranked rank st"
    and "ModelClass_constructor n env sid st = Some (Inr st')"
  shows "ranked rank st'"
  using constructor_ranked [OF assms(1), of n] assms(2,3)
  by (auto simp: keepsRanked_def)

text \<open>
  The store the constructor leaves after building Child of the chain: it is ranked, Child
  is in it, and Root is a recorded polymorphic parent of Child.
\<close>

lemma lineageBuilt_ranked: "ranked id lineageBuilt"
proof -
  have "returned (ModelClass_constructor 3 lineageEnv 1 emptyState)"
    by code_simp
  then obtain st' where run: "ModelClass_constructor 3 lineageEnv 1 emptyState = Some (Inr st')"
    by (auto simp: returned_def split: option.splits sum.splits)
  have "acyclicSchemas id lineageEnv"
    by (auto simp: acyclicSchemas_def lineageEnv_def exampleEnv_def lineage_def exampleSchema_def
        split: if_splits)
  from built_store_is_ranked [OF this emptyState_ranked run] run show ?thesis
    by (simp add: lineageBuilt_def builtState_def)
qed

lemma lineageBuilt_child:
  "\<exists>c. classImplementation lineageBuilt 1 = Some c \<and> parentModelClasses c = [0]"
proof -
  have "map_option parentModelClasses (classImplementation lineageBuilt 1) = Some [0]"
    by code_simp
  then show ?thesis by auto
qed

lemma lineageBuilt_ancestor: "polymorphicAncestor lineageBuilt 1 0"
proof -
  from lineageBuilt_child obtain c where c: "classImplementation lineageBuilt 1 = Some c"
    and "parentModelClasses c = [0]"
    by blast
  then have "(0::nat) \<in> set (parentModelClasses c)" by simp
  with c show ?thesis
    using polymorphicAncestor.itself [of lineageBuilt 0] by (rule polymorphicAncestor.parent)
qed

subsection \<open>Registration reaches every ancestor\<close>

text \<open>
  One call: when a class registers under a discriminator value with a polymorphic parent
  \<open>P\<close> (\<^verbatim>\<open>addDiscriminator\<close>), the call returns and every polymorphic ancestor \<open>A\<close> reached
  from \<open>P\<close> through the recorded polymorphic parents (\<open>P\<close> itself, its recorded parents,
  theirs, and so on) maps the value to the registering class. The recorded parents are
  assumed free of cycles, and the budget above the rank of \<open>P\<close>.
\<close>

lemma addDiscriminator_transitive:
  assumes "ranked rank st" and "rank P < n" and "classImplementation st P \<noteq> None"
    and "polymorphicAncestor st P A"
  shows "\<exists>st' c. addDiscriminator n P v D st = Some (Inr st')
           \<and> classImplementation st' A = Some c \<and> discriminators c v = Some D"
  using addDiscriminator_reaches [OF assms] by blast

lemma addDiscriminator_transitive_example:
  "\<exists>st' c. addDiscriminator 2 1 ''g'' 2 lineageBuilt = Some (Inr st')
     \<and> classImplementation st' 0 = Some c \<and> discriminators c ''g'' = Some 2"
proof -
  have "id (1::nat) < 2" by simp
  moreover have "classImplementation lineageBuilt 1 \<noteq> None"
    using lineageBuilt_child by auto
  ultimately show ?thesis
    using addDiscriminator_transitive [OF lineageBuilt_ranked _ _ lineageBuilt_ancestor] by blast
qed

text \<open>
  The chain of the specification, through the constructor: building Grandchild from the
  empty store builds Child and Root on the way; afterwards Root maps c to Child and g to
  Grandchild, and Child maps g to Grandchild.
\<close>

lemma lineage_built:
  "map_option (\<lambda>c. (discriminators c ''c'', discriminators c ''g''))
     (builtClass (ModelClass_constructor 4 lineageEnv 2 emptyState) 0) = Some (Some 1, Some 2)
   \<and> map_option (\<lambda>c. (discriminators c ''g'', parentModelClasses c, isPolymorphic c))
     (builtClass (ModelClass_constructor 4 lineageEnv 2 emptyState) 1) = Some (Some 2, [0], True)
   \<and> map_option parentModelClasses
     (builtClass (ModelClass_constructor 4 lineageEnv 2 emptyState) 2) = Some [1]"
  by code_simp

text \<open>
  C10. Two registrations of the same value with the same polymorphic class, for two
  classes \<open>D1\<close> and \<open>D2\<close>: both calls return (nothing is thrown), and afterwards the class
  and each of its polymorphic ancestors map the value to \<open>D2\<close>, the later one. A map holds
  one class per value, so the earlier entry is gone wherever \<open>D1\<close> differs from \<open>D2\<close>.
\<close>

theorem addDiscriminator_last_registration_wins:
  assumes "ranked rank st" and "rank P < n" and "classImplementation st P \<noteq> None"
    and "polymorphicAncestor st P A"
  shows "\<exists>st1 st2 c. addDiscriminator n P v D1 st = Some (Inr st1)
           \<and> addDiscriminator n P v D2 st1 = Some (Inr st2)
           \<and> classImplementation st2 A = Some c \<and> discriminators c v = Some D2"
proof -
  let ?st1 = "registered {a. polymorphicAncestor st P a} v D1 st"
  have one: "addDiscriminator n P v D1 st = Some (Inr ?st1)"
    using addDiscriminator_reaches [OF assms] by blast
  have "ranked rank ?st1" "classImplementation ?st1 P \<noteq> None" "polymorphicAncestor ?st1 P A"
    using assms by (auto simp: registered_ranked registered_ancestor registered_lookup)
  from addDiscriminator_reaches [OF this(1) assms(2) this(2,3), of v D2] one
  show ?thesis by blast
qed

theorem addDiscriminator_last_registration_wins_witness:
  "\<exists>st1 st2 c. addDiscriminator 2 1 ''x'' 7 lineageBuilt = Some (Inr st1)
     \<and> addDiscriminator 2 1 ''x'' 8 st1 = Some (Inr st2)
     \<and> classImplementation st2 0 = Some c \<and> discriminators c ''x'' = Some 8"
proof -
  have "id (1::nat) < 2" by simp
  moreover have "classImplementation lineageBuilt 1 \<noteq> None"
    using lineageBuilt_child by auto
  ultimately show ?thesis
    using addDiscriminator_last_registration_wins
            [OF lineageBuilt_ranked _ _ lineageBuilt_ancestor] by blast
qed

subsection \<open>What a build leaves in the registries of others\<close>

text \<open>
  While a class is built, the classes already in the store see registrations only: their
  recorded parents stay, and so does an entry that no other schema's value can replace.
\<close>

lemma kept_refl: "stableButPush env R \<Longrightarrow> pres R st st"
  by (simp add: stableButPush_def pres_def)

lemma kept_trans: "stableButPush env R \<Longrightarrow> pres R a b \<Longrightarrow> pres R b c \<Longrightarrow> pres R a c"
  unfolding stableButPush_def pres_def by (metis option.inject)

lemma others_trans:
  "stableButPush env R \<Longrightarrow> othersKept self R a b \<Longrightarrow> othersKept self R b c \<Longrightarrow> othersKept self R a c"
  unfolding stableButPush_def othersKept_def by (metis option.inject)

lemma pres_others: "pres R a b \<Longrightarrow> othersKept self R a b"
  by (simp add: pres_def othersKept_def)

lemma updateClass_kept:
  assumes "stableButPush env R" and "\<And>c. R c (f c)" and "updateClass s f st = Some (Inr st')"
  shows "pres R st st'"
  using assms unfolding updateClass_def pres_def stableButPush_def
  by (auto split: option.splits)

lemma updateClass_others:
  assumes "stableButPush env R" and "updateClass self f st = Some (Inr st')"
  shows "othersKept self R st st'"
  using assms unfolding updateClass_def othersKept_def stableButPush_def
  by (auto split: option.splits)

lemma forEach_kept:
  assumes "stableButPush env R"
    and "\<And>x s s'. x \<in> set xs \<Longrightarrow> f x s = Some (Inr s') \<Longrightarrow> pres R s s'"
    and "forEach f xs s = Some (Inr s')"
  shows "pres R s s'"
proof (rule forEach_invariant [where I = "pres R s", OF _ _ assms(3)])
  show "pres R s s" using assms(1) by (rule kept_refl)
next
  fix x t t' assume "x \<in> set xs" "pres R s t" "f x t = Some (Inr t')"
  with assms(1,2) show "pres R s t'" by (blast intro: kept_trans)
qed

lemma forEach_others:
  assumes "stableButPush env R"
    and "\<And>x s s'. x \<in> set xs \<Longrightarrow> f x s = Some (Inr s') \<Longrightarrow> othersKept self R s s'"
    and "forEach f xs s = Some (Inr s')"
  shows "othersKept self R s s'"
proof (rule forEach_invariant [where I = "othersKept self R s", OF _ _ assms(3)])
  show "othersKept self R s s" using assms(1) by (simp add: othersKept_def stableButPush_def)
next
  fix x t t' assume "x \<in> set xs" "othersKept self R s t" "f x t = Some (Inr t')"
  with assms(1,2) show "othersKept self R s t'" by (blast intro: others_trans)
qed

lemma addDiscriminator_kept:
  assumes "stableButPush env R" and "declares env mc v"
  shows "addDiscriminator n self v mc st = Some (Inr st') \<Longrightarrow> pres R st st'"
proof (induction n arbitrary: self st st')
  case 0
  then show ?case by simp
next
  case (Suc n)
  from Suc.prems obtain c where c: "classImplementation st self = Some c"
    by (auto split: option.splits)
  let ?m = "st\<lparr>classImplementation := (classImplementation st)(self \<mapsto> setDiscriminator v mc c)\<rparr>"
  have upd: "updateClass self (setDiscriminator v mc) st = Some (Inr ?m)"
    using c by (simp add: updateClass_def)
  have "R d (setDiscriminator v mc d)" for d
    using assms by (simp add: stableButPush_def)
  then have one: "pres R st ?m"
    by (rule updateClass_kept [OF assms(1) _ upd])
  from Suc.prems c have fe: "forEach (\<lambda>each. addDiscriminator n each v mc) (parentModelClasses c) ?m = Some (Inr st')"
    by simp
  have "pres R ?m st'"
    by (rule forEach_kept [OF assms(1) _ fe]) (rule Suc.IH)
  with one assms(1) show ?case by (blast intro: kept_trans)
qed

lemma resolve_kept:
  assumes "stableButPush env R" and "framed R build"
    and "resolveTypeDeclaration build s st = Some (Inr st')"
  shows "pres R st st'"
  using assms unfolding resolveTypeDeclaration_def framed_def
  by (auto split: option.splits intro: kept_refl)

lemma tellParent_others:
  assumes "stableButPush env R" and "framed R build" and "declares env self v"
    and "tellParent n build self v p st = Some (Inr st')"
  shows "othersKept self R st st'"
proof -
  from assms(4) obtain st1 where r: "resolveTypeDeclaration build p st = Some (Inr st1)"
    and rest: "(case classImplementation st1 p of
         None \<Rightarrow> Some (Inl TypeError)
       | Some parentClass \<Rightarrow>
           if isPolymorphic parentClass then
             bind_result (updateClass self (pushParentModelClass p) st1)
               (addDiscriminator n p v self)
           else Some (Inr st1)) = Some (Inr st')"
    unfolding tellParent_def by (auto dest: bind_result_Inr)
  from assms(1,2) r have "pres R st st1" by (rule resolve_kept)
  then have a: "othersKept self R st st1" by (rule pres_others)
  from rest obtain pc where pc: "classImplementation st1 p = Some pc"
    by (auto split: option.splits)
  show ?thesis
  proof (cases "isPolymorphic pc")
    case True
    with rest pc obtain st2 where u: "updateClass self (pushParentModelClass p) st1 = Some (Inr st2)"
      and d: "addDiscriminator n p v self st2 = Some (Inr st')"
      by (auto dest: bind_result_Inr)
    from assms(1) u have "othersKept self R st1 st2"
      by (rule updateClass_others)
    moreover from assms(1,3) d have "pres R st2 st'" by (rule addDiscriminator_kept)
    then have "othersKept self R st2 st'" by (rule pres_others)
    ultimately show ?thesis using a assms(1) by (blast intro: others_trans)
  next
    case False
    with rest pc a show ?thesis by simp
  qed
qed

lemma tellParents_others:
  assumes "stableButPush env R" and "framed R build" and "schemas env self = Some schema"
    and "tellParents n build self schema st = Some (Inr st')"
  shows "othersKept self R st st'"
proof (cases "truthyString (x_ms_discriminator_value schema)")
  case True
  then have d: "declares env self (the (x_ms_discriminator_value schema))"
    using assms(3) by (auto simp: declares_def truthyString_def split: option.splits)
  from True assms(4) have fe: "forEach (tellParent n build self (the (x_ms_discriminator_value schema)))
      (allOf schema) st = Some (Inr st')"
    by (simp add: tellParents_def)
  show ?thesis
    by (rule forEach_others [OF assms(1) _ fe]) (rule tellParent_others [OF assms(1,2) d])
next
  case False
  with assms show ?thesis by (simp add: tellParents_def othersKept_def stableButPush_def)
qed

lemma implement_kept:
  assumes "stableButPush env R" and "framed R build"
  shows "implementInterfaceForParentSchema n build env self p st = Some (Inr st') \<Longrightarrow> pres R st st'"
proof (induction n arbitrary: st st')
  case 0
  then show ?case by simp
next
  case (Suc n)
  from Suc.prems obtain st1 where r: "resolveTypeDeclaration build p st = Some (Inr st1)"
    and rest: "(case interfaceImplementation st1 self of
         None \<Rightarrow> Some (Inl TypeError)
       | Some ifaces \<Rightarrow>
           if truthyNumber (indexOf ifaces (ModelInterfaceOf p)) then Some (Inr st1)
           else
             (case (classImplementation st1 p, classImplementation st1 self, schemas env p) of
                (Some parentClass, Some c, Some parent) \<Rightarrow>
                  (case getPrivateNameForField (class_fields c)
                          (privateFieldBaseName env (fullName parentClass)) of
                     Inl e \<Rightarrow> Some (Inl e)
                   | Inr fieldName \<Rightarrow>
                       forEach
                         (\<lambda>each. implementInterfaceForParentSchema n build env self p)
                         (allOf parent)
                         (st1\<lparr>classImplementation :=
                                (classImplementation st1)
                                  (self \<mapsto> flattenParent env p (fullName parentClass) fieldName c),
                              interfaceImplementation :=
                                (interfaceImplementation st1)
                                  (self \<mapsto> ifaces @ [ModelInterfaceOf p])\<rparr>))
              | _ \<Rightarrow> Some (Inl TypeError))) = Some (Inr st')"
    by (auto dest: bind_result_Inr)
  from assms r have a: "pres R st st1" by (rule resolve_kept)
  from rest obtain ifaces where ifs: "interfaceImplementation st1 self = Some ifaces"
    by (auto split: option.splits)
  show ?case
  proof (cases "truthyNumber (indexOf ifaces (ModelInterfaceOf p))")
    case True
    with rest ifs a show ?thesis by simp
  next
    case False
    with rest ifs have "\<exists>pc c parent fieldName.
        classImplementation st1 p = Some pc \<and> classImplementation st1 self = Some c
        \<and> schemas env p = Some parent
        \<and> getPrivateNameForField (class_fields c) (privateFieldBaseName env (fullName pc)) = Inr fieldName
        \<and> forEach (\<lambda>each. implementInterfaceForParentSchema n build env self p) (allOf parent)
                 (st1\<lparr>classImplementation :=
                        (classImplementation st1)(self \<mapsto> flattenParent env p (fullName pc) fieldName c),
                      interfaceImplementation :=
                        (interfaceImplementation st1)(self \<mapsto> ifaces @ [ModelInterfaceOf p])\<rparr>)
               = Some (Inr st')"
      by (auto split: option.splits sum.splits)
    then obtain pc c parent fieldName where
      "classImplementation st1 p = Some pc" and c: "classImplementation st1 self = Some c"
      and "schemas env p = Some parent"
      and "getPrivateNameForField (class_fields c) (privateFieldBaseName env (fullName pc)) = Inr fieldName"
      and fe: "forEach (\<lambda>each. implementInterfaceForParentSchema n build env self p) (allOf parent)
                 (st1\<lparr>classImplementation :=
                        (classImplementation st1)(self \<mapsto> flattenParent env p (fullName pc) fieldName c),
                      interfaceImplementation :=
                        (interfaceImplementation st1)(self \<mapsto> ifaces @ [ModelInterfaceOf p])\<rparr>)
               = Some (Inr st')"
      by (elim exE conjE) (rule that; assumption)
    let ?m = "st1\<lparr>classImplementation :=
                        (classImplementation st1)(self \<mapsto> flattenParent env p (fullName pc) fieldName c),
                      interfaceImplementation :=
                        (interfaceImplementation st1)(self \<mapsto> ifaces @ [ModelInterfaceOf p])\<rparr>"
    have "pres R st1 ?m"
      using assms(1) c unfolding pres_def stableButPush_def by auto
    moreover have "pres R ?m st'"
      by (rule forEach_kept [OF assms(1) _ fe]) (rule Suc.IH)
    ultimately show ?thesis using a assms(1) by (blast intro: kept_trans)
  qed
qed

lemma constructor_framed_registry:
  assumes "stableButPush env R"
  shows "framed R (ModelClass_constructor n env)"
proof (induction n)
  case 0
  then show ?case by (simp add: framed_def)
next
  case (Suc n)
  show ?case
    unfolding framed_def
  proof (intro allI impI)
    fix sid st st'
    assume absent: "classImplementation st sid = None"
      and run: "ModelClass_constructor (Suc n) env sid st = Some (Inr st')"
    from run obtain schema st1 st2 st3 where schema: "schemas env sid = Some schema"
      and 1: "tellParents n (ModelClass_constructor n env) sid schema (constructorHead env sid schema st) = Some (Inr st1)"
      and 2: "updateClass sid addDefaultConstructor st1 = Some (Inr st2)"
      and 3: "forEach (implementInterfaceForParentSchema n (ModelClass_constructor n env) env sid) (allOf schema) st2 = Some (Inr st3)"
      and 4: "updateClass sid (constructorTail env schema) st3 = Some (Inr st')"
      by (rule constructor_steps)
    have "classImplementation (constructorHead env sid schema st) s = classImplementation st s"
      if "s \<noteq> sid" for s
      using that by (simp add: constructorHead_def Let_def)
    then have 0: "othersKept sid R st (constructorHead env sid schema st)"
      using assms by (simp add: othersKept_def stableButPush_def)
    have a: "othersKept sid R (constructorHead env sid schema st) st1"
      using assms Suc.IH schema 1 by (rule tellParents_others)
    have b: "othersKept sid R st1 st2"
      using assms 2 by (rule updateClass_others)
    have "pres R st2 st3"
      by (rule forEach_kept [OF assms _ 3]) (rule implement_kept [OF assms Suc.IH])
    then have c: "othersKept sid R st2 st3" by (rule pres_others)
    have d: "othersKept sid R st3 st'"
      using assms 4 by (rule updateClass_others)
    from 0 a b c d assms have "othersKept sid R st st'"
      by (blast intro: others_trans)
    with absent show "pres R st st'"
      unfolding othersKept_def pres_def by (metis option.distinct(1))
  qed
qed

lemma stableButPush_keeps:
  assumes "onlyDeclaredBy env v D"
  shows "stableButPush env (keeps v D)"
  unfolding stableButPush_def
proof (intro conjI allI impI)
  fix w m c assume "declares env m w"
  with assms have "w = v \<longrightarrow> m = D" by (auto simp: onlyDeclaredBy_def)
  then show "keeps v D c (setDiscriminator w m c)"
    by (auto simp: keeps_def setDiscriminator_def)
next
  fix p cn fn c show "keeps v D c (flattenParent env p cn fn c)"
    by (simp add: keeps_def flattenParent_def Let_def fold_addInheritedProperty)
next
  fix schema c
  have "discriminators (fold (addProperty env) ps c) = discriminators c
      \<and> parentModelClasses (fold (addProperty env) ps c) = parentModelClasses c" for ps
    by (induction ps arbitrary: c) (simp_all add: addProperty_def Let_def)
  then show "keeps v D c (constructorTail env schema c)"
    by (simp add: keeps_def constructorTail_def attachReadHeaders_def attachValidation_def
        handleAdditionalProperties_def implementIDictionary_def)
qed (auto simp: keeps_def addDefaultConstructor_def)

lemma entry_survives_build:
  assumes "onlyDeclaredBy env v D" and "classImplementation s sid = None"
    and "ModelClass_constructor m env sid s = Some (Inr s')" and "hasEntry s A v D"
  shows "hasEntry s' A v D"
proof -
  have "framed (keeps v D) (ModelClass_constructor m env)"
    using stableButPush_keeps [OF assms(1)] by (rule constructor_framed_registry)
  with assms(2,3) have "pres (keeps v D) s s'"
    by (auto simp: framed_def)
  moreover from assms(4) obtain c where "classImplementation s A = Some c"
    and "discriminators c v = Some D"
    by (auto simp: hasEntry_def split: option.splits)
  ultimately obtain c' where "classImplementation s' A = Some c'" and "keeps v D c c'"
    unfolding pres_def by blast
  with \<open>discriminators c v = Some D\<close> show ?thesis
    by (simp add: hasEntry_def keeps_def)
qed

subsection \<open>Propagation through one constructor\<close>










subsection \<open>Propagation through the build pass\<close>





lemma addsBelow_refl: "addsBelow rank r s s"
  by (simp add: addsBelow_def)

























subsection \<open>Polymorphism\<close>

text \<open>
  C6. Whenever the constructor returns, the class it built for the schema is polymorphic
  exactly when the schema has a discriminator; a discriminator value plays no part.
\<close>

theorem isPolymorphic_iff_discriminator:
  assumes "ModelClass_constructor n env sid st = Some (Inr st')"
  shows "\<exists>schema c. schemas env sid = Some schema \<and> classImplementation st' sid = Some c
           \<and> isPolymorphic c = (discriminator schema \<noteq> None)"
proof -
  from assms obtain schema c where "schemas env sid = Some schema"
      "untouched (headClass sid schema) c"
      "classImplementation st' sid = Some (constructorTail env schema c)"
    using constructor_untouched by blast
  moreover from this have "isPolymorphic (constructorTail env schema c) = (discriminator schema \<noteq> None)"
    by (simp add: constructorTail_def untouched_def)
  ultimately show ?thesis by blast
qed

theorem isPolymorphic_iff_discriminator_witness:
  "\<exists>st' schema c. ModelClass_constructor 3 zooEnv 1 emptyState = Some (Inr st')
     \<and> schemas zooEnv 1 = Some schema \<and> classImplementation st' 1 = Some c
     \<and> isPolymorphic c = (discriminator schema \<noteq> None)
     \<and> x_ms_discriminator_value schema = Some ''dog'' \<and> \<not> isPolymorphic c"
proof -
  have "map_option class_name (builtClass (ModelClass_constructor 3 zooEnv 1 emptyState) 1) = Some ''Dog''"
    by code_simp
  then obtain st' where run: "ModelClass_constructor 3 zooEnv 1 emptyState = Some (Inr st')"
    by (auto dest: builtClass_Some)
  from isPolymorphic_iff_discriminator [OF run] obtain schema c where
    "schemas zooEnv 1 = Some schema" "classImplementation st' 1 = Some c"
    "isPolymorphic c = (discriminator schema \<noteq> None)"
    by blast
  moreover from this(1) have "x_ms_discriminator_value schema = Some ''dog''" "discriminator schema = None"
    by (auto simp: zooEnv_def exampleEnv_def zoo_def exampleSchema_def)
  ultimately show ?thesis using run by auto
qed

text \<open>
  The scenario of the specification: after Dog and Cat are built (Animal is built on the
  way), Animal maps dog to Dog and cat to Cat and is polymorphic; Dog and Cat are not.
\<close>

lemma zoo_built:
  "map_option (\<lambda>c. (isPolymorphic c, discriminators c ''dog'', discriminators c ''cat''))
     (builtClass zooBuilt 0) = Some (True, Some 1, Some 2)
   \<and> map_option isPolymorphic (builtClass zooBuilt 1) = Some False
   \<and> map_option isPolymorphic (builtClass zooBuilt 2) = Some False"
  by code_simp

subsection \<open>Validation\<close>

lemma dropWhile_Nil_iff: "(dropWhile P xs = []) = (\<forall>x \<in> set xs. P x)"
  by (induction xs) auto

lemma trim_empty_iff: "(trim s = []) = (\<forall>c \<in> set s. isWhiteSpace c)"
proof (cases "dropWhile isWhiteSpace s")
  case Nil
  from Nil have "\<forall>c \<in> set s. isWhiteSpace c"
    using dropWhile_Nil_iff [of isWhiteSpace s] by blast
  moreover have "trim s = []"
    unfolding trim_def Nil by simp
  ultimately show ?thesis by simp
next
  case (Cons x xs)
  then have nx: "\<not> isWhiteSpace x" using hd_dropWhile [of isWhiteSpace s] by auto
  have "x \<in> set (rev (x # xs))" by simp
  with nx have "\<not> (\<forall>c \<in> set (rev (x # xs)). isWhiteSpace c)" by blast
  then have "dropWhile isWhiteSpace (rev (x # xs)) \<noteq> []"
    using dropWhile_Nil_iff [of isWhiteSpace "rev (x # xs)"] by blast
  then have "trim s \<noteq> []"
    unfolding trim_def Cons using rev_is_Nil_conv by blast
  moreover have "x \<in> set (dropWhile isWhiteSpace s)"
    unfolding Cons by simp
  then have "x \<in> set s" by (rule set_dropWhileD)
  ultimately show ?thesis using nx by blast
qed

lemma set_implementation:
  "set (implementation ss) - {0x000A} = (\<Union>s \<in> set ss. set s) - {0x000A}"
  by (induction ss rule: implementation.induct) auto

lemma trim_implementation: "(trim (implementation ss) \<noteq> []) = hasCheck ss"
proof -
  have nl: "isWhiteSpace 0x000A" by (simp add: isWhiteSpace_def)
  have "(\<exists>c \<in> set (implementation ss). \<not> isWhiteSpace c)
      = (\<exists>c \<in> set (implementation ss) - {0x000A}. \<not> isWhiteSpace c)"
    using nl by auto
  also have "\<dots> = (\<exists>c \<in> (\<Union>s \<in> set ss. set s) - {0x000A}. \<not> isWhiteSpace c)"
    by (simp only: set_implementation)
  also have "\<dots> = (\<exists>s \<in> set ss. \<exists>c \<in> set s. \<not> isWhiteSpace c)"
    using nl by auto
  finally show ?thesis
    by (simp add: trim_empty_iff hasCheck_def list_ex_iff)
qed

text \<open>
  C8. Whenever the constructor returns, the class has the Validate method (and the
  \<open>IValidates\<close> interface, and \<open>validateMethod\<close> set) exactly when its validation sequence
  holds a check and the project does not use the storage pipeline.
\<close>

theorem validation_attached_iff:
  assumes "ModelClass_constructor n env sid st = Some (Inr st')"
  shows "\<exists>c. classImplementation st' sid = Some c
           \<and> (validateMethod c \<noteq> None) = (hasCheck (validationStatements c) \<and> \<not> storagePipeline env)
           \<and> (IValidates \<in> set (interfaces c)) = (hasCheck (validationStatements c) \<and> \<not> storagePipeline env)
           \<and> (''Validate'' \<in> set (methods c)) = (hasCheck (validationStatements c) \<and> \<not> storagePipeline env)"
proof -
  from assms obtain schema c where u: "untouched (headClass sid schema) c"
      and c: "classImplementation st' sid = Some (constructorTail env schema c)"
    using constructor_untouched by blast
  define d where "d = handleAdditionalProperties schema (fold (addProperty env) (properties schema) c)"
  have tail: "constructorTail env schema c = attachReadHeaders (attachValidation env d)"
    by (simp add: constructorTail_def d_def)
  from u have d: "validateMethod d = None" "interfaces d = [ModelInterfaceOf sid]"
      "''Validate'' \<notin> set (methods d)"
    by (auto simp: d_def untouched_def)
  have stmts: "validationStatements (constructorTail env schema c) = validationStatements d"
    by (simp add: tail)
  have "(validateMethod (attachValidation env d) \<noteq> None) = (hasCheck (validationStatements d) \<and> \<not> storagePipeline env)"
    using d by (auto simp: attachValidation_def trim_implementation)
  moreover have "(IValidates \<in> set (interfaces (attachValidation env d))) = (hasCheck (validationStatements d) \<and> \<not> storagePipeline env)"
    using d by (auto simp: attachValidation_def trim_implementation)
  moreover have "(''Validate'' \<in> set (methods (attachReadHeaders (attachValidation env d))))
      = (hasCheck (validationStatements d) \<and> \<not> storagePipeline env)"
    using d by (auto simp: attachValidation_def attachReadHeaders_def trim_implementation)
  ultimately show ?thesis
    using c stmts by (simp add: tail)
qed

theorem validation_attached_iff_witness:
  "\<exists>st' c. ModelClass_constructor 1 blobsEnv 0 emptyState = Some (Inr st')
     \<and> classImplementation st' 0 = Some c
     \<and> hasCheck (validationStatements c) \<and> \<not> storagePipeline blobsEnv
     \<and> validateMethod c \<noteq> None \<and> IValidates \<in> set (interfaces c)
     \<and> ''Validate'' \<in> set (methods c)"
proof -
  have e: "map_option validationStatements (builtClass (ModelClass_constructor 1 blobsEnv 0 emptyState) 0)
      = Some (map codeUnits [''AssertNotNull(_ETag);'', ''AssertValid(_ETag);''])"
    by code_simp
  then obtain st' c0 where run: "ModelClass_constructor 1 blobsEnv 0 emptyState = Some (Inr st')"
    and c0: "classImplementation st' 0 = Some c0"
      "validationStatements c0 = map codeUnits [''AssertNotNull(_ETag);'', ''AssertValid(_ETag);'']"
    by (auto dest: builtClass_Some)
  have "hasCheck (validationStatements c0)"
    unfolding c0 by code_simp
  moreover have "\<not> storagePipeline blobsEnv"
    by (simp add: blobsEnv_def exampleEnv_def)
  ultimately show ?thesis
    using validation_attached_iff [OF run] run c0 by auto
qed

text \<open>With the storage pipeline the same class gets no Validate method.\<close>

lemma storagePipeline_suppresses_validation:
  "map_option (\<lambda>c. (validationStatements c, validateMethod c, methods c))
     (builtClass (ModelClass_constructor 1 (blobsEnv\<lparr>storagePipeline := True\<rparr>) 0 emptyState) 0)
   = Some (map codeUnits [''AssertNotNull(_ETag);'', ''AssertValid(_ETag);''], None, [''.ctor'', ''ReadHeaders''])"
  by code_simp

text \<open>
  A property that is not required, of a type that prints no value check, adds two empty
  statements: the sequence holds no check and the class gets no Validate method.
\<close>

lemma blank_statements_attach_no_validation:
  "map_option (\<lambda>c. (validationStatements c, hasCheck (validationStatements c), validateMethod c, methods c))
     (builtClass (ModelClass_constructor 1 notesEnv 0 emptyState) 0)
   = Some ([[], []], False, None, [''.ctor''])"
  by code_simp

text \<open>
  A statement of one no-break space is blank as well: \<^verbatim>\<open>trim\<close> removes it, and the
  class gets no Validate method.
\<close>

lemma nbsp_statement_attaches_no_validation:
  "map_option (\<lambda>c. (validationStatements c, trim (implementation (validationStatements c)),
                      hasCheck (validationStatements c), validateMethod c, methods c))
     (builtClass (ModelClass_constructor 1 nbspEnv 0 emptyState) 0)
   = Some ([[], [0x00A0]], [], False, None, [''.ctor''])"
  by code_simp

subsection \<open>Inherited read-only properties\<close>

lemma proxyFor_ok: "proxyOk (proxyFor each)"
  by (simp add: proxyOk_def proxyFor_def new_VirtualProperty_def Let_def)

lemma stable_proxiesKept: "stable env proxiesKept"
  unfolding stable_def
proof (intro conjI allI impI)
  fix p cn fn c show "proxiesKept c (flattenParent env p cn fn c)"
    unfolding proxiesKept_def flattenParent_def Let_def fold_addInheritedProperty
    by (auto simp: list_all_iff proxyFor_ok)
qed (auto simp: proxiesKept_def setDiscriminator_def pushParentModelClass_def addDefaultConstructor_def)

text \<open>
  Whenever the constructor returns, every virtual property the class has was made for an
  inherited property: it has a getter, and has no setter exactly when that property has
  an internal setter.
\<close>

lemma readonly_proxy_has_no_setter:
  assumes "ModelClass_constructor n env sid st = Some (Inr st')"
    and "classImplementation st' sid = Some c"
    and "vp \<in> set (class_properties c)"
  shows "getterStatements vp \<noteq> None
         \<and> (setterStatements vp = None) = (setAccess (vp_type vp) = Internal)"
proof -
  from assms(1) obtain schema c3 where "proxiesKept (headClass sid schema) c3"
      "classImplementation st' sid = Some (constructorTail env schema c3)"
    using constructor_own [OF stable_proxiesKept] by blast
  with assms(2) have "list_all proxyOk (class_properties c)"
    by (auto simp: proxiesKept_def constructorTail_def)
  with assms(3) show ?thesis
    by (auto simp: list_all_iff proxyOk_def)
qed

text \<open>
  PageBlob with Blob's interface listed first: the proxy for the read-only ETag is there,
  with a getter and without a setter.
\<close>

lemma readonly_proxy_listed_first:
  "\<exists>st' c vp. ModelClass_constructor 2 blobsEnv 1 emptyState = Some (Inr st')
     \<and> classImplementation st' 1 = Some c \<and> class_properties c = [vp]
     \<and> vp_name vp = ''ETag'' \<and> setAccess (vp_type vp) = Internal
     \<and> getterStatements vp \<noteq> None \<and> setterStatements vp = None"
proof -
  have "map_option (\<lambda>c. map (\<lambda>vp. (vp_name vp, setAccess (vp_type vp))) (class_properties c))
          (builtClass (ModelClass_constructor 2 blobsEnv 1 emptyState) 1)
      = Some [(''ETag'', Internal)]"
    by code_simp
  then obtain st' c vp where run: "ModelClass_constructor 2 blobsEnv 1 emptyState = Some (Inr st')"
    and c: "classImplementation st' 1 = Some c" "class_properties c = [vp]"
      "vp_name vp = ''ETag''" "setAccess (vp_type vp) = Internal"
    by (auto dest!: builtClass_Some)
  from c have "vp \<in> set (class_properties c)" by simp
  from readonly_proxy_has_no_setter [OF run c(1) this] run c show ?thesis by auto
qed

text \<open>
  C4. Blob's interface lists the read-only property ETag (internal setter) and PageBlob
  has the parent Blob. With a fresh model interface, or with one that lists another
  interface before Blob's, the constructor of PageBlob returns and PageBlob has no virtual
  property at all: the inherited read-only property has no proxy, so no read operation.
  The same holds for Child of the three-level project, whose grandparent has the
  read-only property Id.
\<close>

theorem readonly_property_gets_no_proxy:
  "map (\<lambda>p. (property_name p, setAccess p)) (allProperties blobsFreshEnv 0) = [(''ETag'', Internal)]
   \<and> map_option (\<lambda>c. map vp_name (class_properties c))
       (builtClass (ModelClass_constructor 2 blobsFreshEnv 1 emptyState) 1) = Some []
   \<and> map_option (\<lambda>c. map vp_name (class_properties c))
       (builtClass (ModelClass_constructor 2 blobsSecondEnv 1 emptyState) 1) = Some []
   \<and> map (\<lambda>p. (property_name p, setAccess p)) (allProperties (threeLevelsEnv (\<lambda>s. [])) 0)
       = [(''Id'', Internal)]
   \<and> map_option (\<lambda>c. map vp_name (class_properties c))
       (builtClass (ModelClass_constructor 4 (threeLevelsEnv (\<lambda>s. [])) 2 emptyState) 2) = Some []"
  by code_simp

subsection \<open>The guard on repeated parents\<close>

lemma indexOfFrom_range: "indexOfFrom xs x i = - 1 \<or> i \<le> indexOfFrom xs x i"
  by (induction xs x i rule: indexOfFrom.induct) auto

lemma indexOf_zero: "(indexOf xs x = 0) = (\<exists>ys. xs = x # ys)"
proof (cases xs)
  case Nil
  then show ?thesis by (simp add: indexOf_def)
next
  case (Cons y ys)
  with indexOfFrom_range [of ys x 1] show ?thesis
    by (auto simp: indexOf_def)
qed

lemma indexOf_append_zero: "indexOf xs x = 0 \<Longrightarrow> indexOf (xs @ ys) x = 0"
  by (auto simp: indexOf_zero)

lemma indexOfFrom_absent: "x \<notin> set xs \<Longrightarrow> indexOfFrom xs x i = - 1"
  by (induction xs x i rule: indexOfFrom.induct) auto

text \<open>
  A parent whose interface the model interface does not list yet is skipped: \<^verbatim>\<open>indexOf\<close>
  returns -1, which is a true condition.
\<close>

lemma unlisted_parent_is_skipped:
  assumes "resolveTypeDeclaration build p st = Some (Inr st1)"
    and "interfaceImplementation st1 self = Some ifaces"
    and "ModelInterfaceOf p \<notin> set ifaces"
  shows "implementInterfaceForParentSchema (Suc n) build env self p st = Some (Inr st1)"
  using assms
  by (simp add: bind_result_def indexOf_def indexOfFrom_absent truthyNumber_def)

subsection \<open>Parents of parents\<close>

lemma reentry_never_returns:
  assumes "schemas env p = Some parent" and "allOf parent \<noteq> []"
  shows "flatteningOpen self p st \<Longrightarrow>
         implementInterfaceForParentSchema n build env self p st \<noteq> Some (Inr st')"
proof (induction n arbitrary: st st')
  case 0
  then show ?case by simp
next
  case (Suc n)
  from Suc.prems obtain pc ifaces where pc: "classImplementation st p = Some pc"
    and ifs: "interfaceImplementation st self = Some ifaces"
    and zero: "indexOf ifaces (ModelInterfaceOf p) = 0"
    by (auto simp: flatteningOpen_def truthyNumber_def split: option.splits)
  from pc have r: "resolveTypeDeclaration build p st = Some (Inr st)"
    by (simp add: resolveTypeDeclaration_def)
  from assms(2) obtain g gs where gs: "allOf parent = g # gs"
    by (cases "allOf parent") auto
  show ?case
  proof (cases "classImplementation st self")
    case None
    with r ifs zero pc assms(1) show ?thesis
      by (simp add: bind_result_def truthyNumber_def)
  next
    case (Some c)
    show ?thesis
    proof (cases "getPrivateNameForField (class_fields c) (privateFieldBaseName env (fullName pc))")
      case (Inl e)
      with r ifs zero pc Some assms(1) show ?thesis
        by (simp add: bind_result_def truthyNumber_def)
    next
      case (Inr fieldName)
      let ?m = "st\<lparr>classImplementation :=
                     (classImplementation st)(self \<mapsto> flattenParent env p (fullName pc) fieldName c),
                   interfaceImplementation :=
                     (interfaceImplementation st)(self \<mapsto> ifaces @ [ModelInterfaceOf p])\<rparr>"
      have "indexOf (ifaces @ [ModelInterfaceOf p]) (ModelInterfaceOf p) = 0"
        using zero by (rule indexOf_append_zero)
      then have "flatteningOpen self p ?m"
        using pc by (auto simp: flatteningOpen_def truthyNumber_def)
      then have "implementInterfaceForParentSchema n build env self p ?m \<noteq> Some (Inr x)" for x
        by (rule Suc.IH)
      then have "forEach (\<lambda>each. implementInterfaceForParentSchema n build env self p) (allOf parent) ?m
          \<noteq> Some (Inr st')"
        unfolding gs by (auto dest: bind_result_Inr)
      with r ifs zero pc Some Inr assms(1) show ?thesis
        by (simp add: bind_result_def truthyNumber_def)
    qed
  qed
qed

lemma grandparents_never_flattened:
  assumes "schemas env p = Some parent" and "allOf parent \<noteq> []"
    and "implementInterfaceForParentSchema n build env self p st = Some (Inr st')"
  shows "resolveTypeDeclaration build p st = Some (Inr st')"
proof (cases n)
  case 0
  with assms(3) show ?thesis by simp
next
  case (Suc m)
  from assms(3) [unfolded Suc] obtain st1 where r: "resolveTypeDeclaration build p st = Some (Inr st1)"
    and rest: "(case interfaceImplementation st1 self of
         None \<Rightarrow> Some (Inl TypeError)
       | Some ifaces \<Rightarrow>
           if truthyNumber (indexOf ifaces (ModelInterfaceOf p)) then Some (Inr st1)
           else
             (case (classImplementation st1 p, classImplementation st1 self, schemas env p) of
                (Some parentClass, Some c, Some parent) \<Rightarrow>
                  (case getPrivateNameForField (class_fields c)
                          (privateFieldBaseName env (fullName parentClass)) of
                     Inl e \<Rightarrow> Some (Inl e)
                   | Inr fieldName \<Rightarrow>
                       forEach
                         (\<lambda>each. implementInterfaceForParentSchema m build env self p)
                         (allOf parent)
                         (st1\<lparr>classImplementation :=
                                (classImplementation st1)
                                  (self \<mapsto> flattenParent env p (fullName parentClass) fieldName c),
                              interfaceImplementation :=
                                (interfaceImplementation st1)
                                  (self \<mapsto> ifaces @ [ModelInterfaceOf p])\<rparr>))
              | _ \<Rightarrow> Some (Inl TypeError))) = Some (Inr st')"
    by (auto dest: bind_result_Inr)
  from rest obtain ifaces where ifs: "interfaceImplementation st1 self = Some ifaces"
    by (auto split: option.splits)
  show ?thesis
  proof (cases "truthyNumber (indexOf ifaces (ModelInterfaceOf p))")
    case True
    with rest ifs r show ?thesis by simp
  next
    case False
    have "classImplementation st1 p \<noteq> None"
      using rest ifs False by (auto split: option.splits)
    with ifs False have "flatteningOpen self p st1"
      by (auto simp: flatteningOpen_def)
    then have "implementInterfaceForParentSchema (Suc m) build env self p st1 \<noteq> Some (Inr st')"
      using assms(1,2) reentry_never_returns by blast
    moreover from \<open>classImplementation st1 p \<noteq> None\<close>
    have "resolveTypeDeclaration build p st1 = Some (Inr st1)"
      by (auto simp: resolveTypeDeclaration_def)
    ultimately show ?thesis
      using rest by (simp add: bind_result_def)
  qed
qed

text \<open>
  C3. Child has the parent Parent, which has the parent Grand. With a model interface
  that does not list Parent's interface, the constructor of Child returns with no backing
  field and no virtual property: neither Parent's property nor Grand's is exposed. With
  one that lists it first, flattening Parent into Child does not return normally,
  whatever the budget: the loop over Parent's parents calls the method with Parent again,
  each time adding a backing field, until the name scan throws.
\<close>

theorem grandparent_properties_not_flattened:
  "map_option (\<lambda>c. (map vp_name (class_properties c), map typeDeclaration (backingFields c)))
     (builtClass (ModelClass_constructor 4 (threeLevelsEnv (\<lambda>s. [])) 2 emptyState) 2)
     = Some ([], [])
   \<and> (\<forall>n. \<not> returned
          (implementInterfaceForParentSchema n
             (ModelClass_constructor n (threeLevelsEnv (parentFirst 2 1)))
             (threeLevelsEnv (parentFirst 2 1)) 2 1 childStarted))"
proof -
  have a: "map_option (\<lambda>c. (map vp_name (class_properties c), map typeDeclaration (backingFields c)))
     (builtClass (ModelClass_constructor 4 (threeLevelsEnv (\<lambda>s. [])) 2 emptyState) 2)
     = Some ([], [])"
    by code_simp
  have parent: "schemas (threeLevelsEnv (parentFirst 2 1)) 1 = Some (exampleSchema ''Parent'' [0])"
    by (simp add: threeLevelsEnv_def exampleEnv_def threeLevels_def)
  have grand: "allOf (exampleSchema ''Parent'' [0]) \<noteq> []"
    by (simp add: exampleSchema_def)
  have "flatteningOpen 2 1 childStarted"
    by code_simp
  then have "implementInterfaceForParentSchema n
             (ModelClass_constructor n (threeLevelsEnv (parentFirst 2 1)))
             (threeLevelsEnv (parentFirst 2 1)) 2 1 childStarted \<noteq> Some (Inr st')" for n st'
    by (rule reentry_never_returns [OF parent grand])
  then have "\<not> returned (implementInterfaceForParentSchema n
             (ModelClass_constructor n (threeLevelsEnv (parentFirst 2 1)))
             (threeLevelsEnv (parentFirst 2 1)) 2 1 childStarted)" for n
    by (auto simp: returned_def split: option.splits sum.splits)
  with a show ?thesis by blast
qed

subsection \<open>Repeated parents\<close>

text \<open>
  Two calls for the same parent, as two equal entries of \<^verbatim>\<open>allOf\<close> make them: whatever
  the model interface lists, the class ends with no new backing field or with two.
\<close>

lemma backingFields_flattenParent:
  "length (backingFields (flattenParent env p cn fn c)) = Suc (length (backingFields c))"
  by (simp add: flattenParent_def Let_def fold_addInheritedProperty)

lemma flatten_listed_parent:
  assumes "classImplementation st p = Some pc" and "schemas env p = Some parent"
    and "allOf parent = []" and "interfaceImplementation st self = Some ifaces"
    and "classImplementation st self = Some c"
  shows "implementInterfaceForParentSchema (Suc n) build env self p st =
     (if truthyNumber (indexOf ifaces (ModelInterfaceOf p)) then Some (Inr st)
      else case getPrivateNameForField (class_fields c) (privateFieldBaseName env (fullName pc)) of
             Inl e \<Rightarrow> Some (Inl e)
           | Inr fieldName \<Rightarrow>
               Some (Inr (st\<lparr>classImplementation :=
                              (classImplementation st)
                                (self \<mapsto> flattenParent env p (fullName pc) fieldName c),
                            interfaceImplementation :=
                              (interfaceImplementation st)
                                (self \<mapsto> ifaces @ [ModelInterfaceOf p])\<rparr>)))"
  using assms
  by (simp add: resolveTypeDeclaration_def bind_result_def split: sum.splits)

lemma returns_needs_class:
  assumes "implementInterfaceForParentSchema (Suc n) build env self p st = Some (Inr st')"
    and "classImplementation st p = Some pc"
  shows "\<exists>ifaces. interfaceImplementation st self = Some ifaces
          \<and> (truthyNumber (indexOf ifaces (ModelInterfaceOf p)) \<and> st' = st
              \<or> \<not> truthyNumber (indexOf ifaces (ModelInterfaceOf p))
                 \<and> (\<exists>parent c. schemas env p = Some parent \<and> allOf parent = []
                       \<and> classImplementation st self = Some c))"
proof -
  from assms(2) have r: "resolveTypeDeclaration build p st = Some (Inr st)"
    by (simp add: resolveTypeDeclaration_def)
  from assms(1) r obtain ifaces where ifs: "interfaceImplementation st self = Some ifaces"
    by (auto simp: bind_result_def split: option.splits)
  show ?thesis
  proof (cases "truthyNumber (indexOf ifaces (ModelInterfaceOf p))")
    case True
    with assms(1) r ifs show ?thesis by (simp add: bind_result_def)
  next
    case False
    with assms(1) r ifs assms(2) obtain parent c where pc: "schemas env p = Some parent"
        "classImplementation st self = Some c"
      by (auto simp: bind_result_def split: option.splits)
    have "flatteningOpen self p st"
      using assms(2) ifs False by (simp add: flatteningOpen_def)
    with assms(1) pc(1) have "allOf parent = []"
      using reentry_never_returns by blast
    with ifs False pc show ?thesis by blast
  qed
qed

lemma forEach_two:
  "forEach f [x, y] s = Some (Inr s') \<Longrightarrow> \<exists>m. f x s = Some (Inr m) \<and> f y m = Some (Inr s')"
  by (auto dest!: bind_result_Inr)

lemma duplicate_parent_never_one:
  assumes built: "classImplementation st p = Some pc"
    and run: "forEach (implementInterfaceForParentSchema (Suc n) build env self) [p, p] st = Some (Inr st')"
    and before: "classImplementation st self = Some c"
    and after: "classImplementation st' self = Some c'"
  shows "length (backingFields c') = length (backingFields c)
         \<or> length (backingFields c') = length (backingFields c) + 2"
proof -
  from run obtain m where one: "implementInterfaceForParentSchema (Suc n) build env self p st = Some (Inr m)"
    and two: "implementInterfaceForParentSchema (Suc n) build env self p m = Some (Inr st')"
    by (blast dest: forEach_two)
  from returns_needs_class [OF one built] obtain ifaces where
    ifs: "interfaceImplementation st self = Some ifaces"
    and alt: "truthyNumber (indexOf ifaces (ModelInterfaceOf p)) \<and> m = st
              \<or> \<not> truthyNumber (indexOf ifaces (ModelInterfaceOf p))
                 \<and> (\<exists>parent c. schemas env p = Some parent \<and> allOf parent = []
                       \<and> classImplementation st self = Some c)"
    by blast
  show ?thesis
  proof (cases "truthyNumber (indexOf ifaces (ModelInterfaceOf p))")
    case True
    with alt have "m = st" by blast
    with one two have "st' = st" by simp
    with before after show ?thesis by simp
  next
    case False
    with alt obtain parent where parent: "schemas env p = Some parent" "allOf parent = []"
      by blast
    from one False obtain f1 where f1: "getPrivateNameForField (class_fields c) (privateFieldBaseName env (fullName pc)) = Inr f1"
      and m: "m = st\<lparr>classImplementation :=
                              (classImplementation st)
                                (self \<mapsto> flattenParent env p (fullName pc) f1 c),
                            interfaceImplementation :=
                              (interfaceImplementation st)
                                (self \<mapsto> ifaces @ [ModelInterfaceOf p])\<rparr>"
      unfolding flatten_listed_parent [OF built parent ifs before]
      by (auto split: sum.splits)
    let ?c1 = "flattenParent env p (fullName pc) f1 c"
    from built m obtain pc' where built': "classImplementation m p = Some pc'"
      by (cases "p = self") auto
    have ifs': "interfaceImplementation m self = Some (ifaces @ [ModelInterfaceOf p])"
      and mid: "classImplementation m self = Some ?c1"
      by (simp_all add: m)
    from False have "indexOf ifaces (ModelInterfaceOf p) = 0"
      by (simp add: truthyNumber_def)
    then have open': "\<not> truthyNumber (indexOf (ifaces @ [ModelInterfaceOf p]) (ModelInterfaceOf p))"
      by (simp add: truthyNumber_def indexOf_append_zero)
    from two open' obtain f2 where
      "st' = m\<lparr>classImplementation :=
                              (classImplementation m)
                                (self \<mapsto> flattenParent env p (fullName pc') f2 ?c1),
                            interfaceImplementation :=
                              (interfaceImplementation m)
                                (self \<mapsto> (ifaces @ [ModelInterfaceOf p]) @ [ModelInterfaceOf p])\<rparr>"
      unfolding flatten_listed_parent [OF built' parent ifs' mid]
      by (auto split: sum.splits)
    with after have "c' = flattenParent env p (fullName pc') f2 ?c1" by simp
    then show ?thesis by (simp add: backingFields_flattenParent)
  qed
qed

text \<open>
  C2. Derived lists Base twice. With a model interface that does not list Base's
  interface, both occurrences are skipped and Derived has no backing field; with one that
  lists it first, both occurrences are flattened and Derived has two backing fields for
  Base; with one that lists it second, both are skipped again. In no case is there
  exactly one.
\<close>

theorem duplicate_parent_backing_fields:
  "map_option (\<lambda>c. map (\<lambda>b. (typeDeclaration b, field_name (backing_field b))) (backingFields c))
     (builtClass (ModelClass_constructor 3 (exampleEnv duplicateParent (\<lambda>s. []) (\<lambda>s. [])) 1 emptyState) 1)
     = Some []
   \<and> map_option (\<lambda>c. map (\<lambda>b. (typeDeclaration b, field_name (backing_field b))) (backingFields c))
     (builtClass (ModelClass_constructor 3 (exampleEnv duplicateParent (parentFirst 1 0) (\<lambda>s. [])) 1 emptyState) 1)
     = Some [(0, ''_Base''), (0, ''_Base0'')]
   \<and> map_option (\<lambda>c. map (\<lambda>b. (typeDeclaration b, field_name (backing_field b))) (backingFields c))
     (builtClass (ModelClass_constructor 3 (exampleEnv duplicateParent (parentSecond 1 0) (\<lambda>s. [])) 1 emptyState) 1)
     = Some []"
  by code_simp

subsection \<open>Additional properties\<close>

lemma dictionaryOf_tail:
  "dictionaryOf (constructorTail env schema c) =
     (if additionalProperties schema = Boolean True then Some (System_String, System_Object)
      else dictionaryOf c)"
  by (cases "additionalProperties schema")
     (auto simp: constructorTail_def handleAdditionalProperties_def implementIDictionary_def
        truthyAdditionalProperties_def)

lemma dictionary_only_for_true:
  assumes "ModelClass_constructor n env sid st = Some (Inr st')"
  shows "\<exists>schema c. schemas env sid = Some schema \<and> classImplementation st' sid = Some c
           \<and> dictionaryOf c =
               (if additionalProperties schema = Boolean True
                then Some (System_String, System_Object) else None)"
proof -
  from assms obtain schema c where "schemas env sid = Some schema"
      "untouched (headClass sid schema) c"
      "classImplementation st' sid = Some (constructorTail env schema c)"
    using constructor_untouched by blast
  moreover from this have "dictionaryOf c = None"
    by (simp add: untouched_def)
  ultimately show ?thesis
    by (auto simp: dictionaryOf_tail)
qed

text \<open>
  C7. Typed allows additional properties of one schema, Open allows any, Tag declares
  none. Only Open gets the collection capability (string keys, object values); Typed gets
  none, like Tag.
\<close>

theorem typed_additionalProperties_attach_nothing:
  "map (\<lambda>s. map_option dictionaryOf (builtClass (ModelClass_constructor 1 dictionariesEnv s emptyState) s))
     [1, 2, 0]
   = [Some None, Some (Some (System_String, System_Object)), Some None]"
  by code_simp

subsection \<open>The header reader\<close>

lemma readHeaders_iff_own_header_property:
  assumes "ModelClass_constructor n env sid st = Some (Inr st')"
  shows "\<exists>schema c. schemas env sid = Some schema \<and> classImplementation st' sid = Some c
           \<and> (''ReadHeaders'' \<in> set (methods c)) = list_ex isHeader (map snd (properties schema))"
proof -
  from assms obtain schema c where s: "schemas env sid = Some schema"
      and u: "untouched (headClass sid schema) c"
      and c: "classImplementation st' sid = Some (constructorTail env schema c)"
    using constructor_untouched by blast
  define d where "d = handleAdditionalProperties schema (fold (addProperty env) (properties schema) c)"
  have tail: "constructorTail env schema c = attachReadHeaders (attachValidation env d)"
    by (simp add: constructorTail_def d_def)
  from u have "''ReadHeaders'' \<notin> set (methods d)"
    "hasHeaderProperties d = list_ex isHeader (map snd (properties schema))"
    by (auto simp: d_def untouched_def)
  then have "(''ReadHeaders'' \<in> set (methods (attachReadHeaders (attachValidation env d))))
      = list_ex isHeader (map snd (properties schema))"
    by (auto simp: attachReadHeaders_def attachValidation_def)
  with s c tail show ?thesis by simp
qed

text \<open>
  C9. Blob has a header property of its own and gets the ReadHeaders method. PageBlob
  has no property of its own and inherits ETag from Blob: the property is exposed on
  PageBlob, and PageBlob gets no ReadHeaders method.
\<close>

theorem inherited_header_property_gets_no_reader:
  "map_option (\<lambda>c. (map vp_name (class_properties c), methods c))
     (builtClass (ModelClass_constructor 2 blobsEnv 1 emptyState) 1)
     = Some ([''ETag''], [''.ctor'', ''Validate''])
   \<and> map_option (\<lambda>c. (hasHeaderProperties c, methods c))
     (builtClass (ModelClass_constructor 2 blobsEnv 1 emptyState) 0)
     = Some (True, [''.ctor'', ''Validate'', ''ReadHeaders''])"
  by code_simp

end
